theory Spec2Isabelle
  imports Complex_Main
begin

section \<open>Errors\<close>

text \<open>
  The exceptions that travel through \<^verbatim>\<open>edgar/httprequests.py\<close>. \<open>RequestError\<close> stands
  for \<^verbatim>\<open>httpx.RequestError\<close> and its subclasses (connection failure, timeout), the
  only class named in \<^verbatim>\<open>retry(on=httpx.RequestError, ...)\<close>. \<open>TooManyRequestsError\<close>
  carries the url, as the class of the source does; it derives from \<^verbatim>\<open>Exception\<close>, as
  does \<open>IdentityNotSetException\<close>. \<open>KeyError\<close> is what \<^verbatim>\<open>response.headers["Location"]\<close>
  raises on a response without that header, \<open>ValueError\<close> what the constructors raise,
  and \<open>OtherError\<close> any other exception a transport may raise.
\<close>

datatype exn =
    RequestError string
  | TooManyRequestsError string
  | IdentityNotSetException string
  | ValueError string
  | KeyError string
  | OtherError string

section \<open>RequestRate\<close>

record RequestRate =
  max_requests :: int
  time_window :: int

text \<open>\<^verbatim>\<open>RequestRate.__init__\<close>: the two checks in the order of the source.\<close>

definition RequestRate_init :: "int \<Rightarrow> int \<Rightarrow> exn + RequestRate" where
  "RequestRate_init n w =
     (if n \<le> 0 then Inl (ValueError ''max_requests must be a positive integer'')
      else if w \<le> 0 then Inl (ValueError ''time_window must be a positive integer'')
      else Inr \<lparr>max_requests = n, time_window = w\<rparr>)"

section \<open>Throttler\<close>

text \<open>
  The lock of the source makes \<^verbatim>\<open>get_ticket\<close> atomic; the model is sequential, one call
  being one step, so the lock has no field. Readings of \<^verbatim>\<open>time.monotonic()\<close> are reals.
\<close>

record Throttler =
  request_rate :: RequestRate
  sleep_interval :: real
  request_timestamps :: "real list"
  decorated_function :: "string option"
  total_calls :: int
  peak_call_rate :: real

definition Throttler_init :: "RequestRate \<Rightarrow> real \<Rightarrow> Throttler" where
  "Throttler_init rr si =
     \<lparr>request_rate = rr, sleep_interval = si, request_timestamps = [],
      decorated_function = None, total_calls = 0, peak_call_rate = 0\<rparr>"

text \<open>
  The loop \<^verbatim>\<open>while ts and ts[0] <= current_time - time_window: ts.popleft()\<close>, with
  \<open>bound\<close> the value of \<^verbatim>\<open>current_time - time_window\<close>.
\<close>

fun popleft_expired :: "real \<Rightarrow> real list \<Rightarrow> real list" where
  "popleft_expired bound [] = []"
| "popleft_expired bound (x # xs) =
     (if x \<le> bound then popleft_expired bound xs else x # xs)"

text \<open>\<^verbatim>\<open>Throttler.get_ticket\<close>, with the reading of the clock as an argument.\<close>

definition get_ticket :: "real \<Rightarrow> Throttler \<Rightarrow> bool \<times> Throttler" where
  "get_ticket current_time th =
     (let ts = popleft_expired (current_time - real_of_int (time_window (request_rate th)))
                 (request_timestamps th)
      in if int (length ts) < max_requests (request_rate th)
         then (True, th\<lparr>request_timestamps := ts @ [current_time]\<rparr>)
         else (False, th\<lparr>request_timestamps := ts\<rparr>))"

text \<open>\<^verbatim>\<open>Throttler.update_metrics\<close>.\<close>

definition update_metrics :: "Throttler \<Rightarrow> Throttler" where
  "update_metrics th =
     th\<lparr>total_calls := total_calls th + 1,
        peak_call_rate :=
          max (peak_call_rate th)
            (real (length (request_timestamps th)) / real_of_int (time_window (request_rate th)))\<rparr>"

text \<open>
  A sequence of \<^verbatim>\<open>get_ticket\<close> calls on one throttler, one call per clock reading, with
  the value each call returned.
\<close>

fun get_tickets :: "real list \<Rightarrow> Throttler \<Rightarrow> bool list \<times> Throttler" where
  "get_tickets [] th = ([], th)"
| "get_tickets (t # ts) th =
     (let (b, th1) = get_ticket t th; (bs, th2) = get_tickets ts th1 in (b # bs, th2))"

text \<open>The clock readings of the calls that returned true.\<close>

definition admitted :: "real list \<Rightarrow> bool list \<Rightarrow> real list" where
  "admitted ts bs = map fst (filter snd (zip ts bs))"

text \<open>A timestamp lies in the trailing window of length \<open>w\<close> that ends at \<open>t\<close>.\<close>

definition in_window :: "real \<Rightarrow> real \<Rightarrow> real \<Rightarrow> bool" where
  "in_window w t x \<longleftrightarrow> t - w < x \<and> x \<le> t"

section \<open>Module constants\<close>

definition attempts :: nat where
  "attempts = 6"

definition retry_timeout :: real where
  "retry_timeout = 40"

definition wait_initial :: real where
  "wait_initial = 1 / 10"

definition max_requests_per_second :: int where
  "max_requests_per_second = 8"

section \<open>The world the pipeline runs in\<close>

text \<open>
  An \<^verbatim>\<open>httpx.Response\<close>, as far as the module reads it. The headers of a response are
  looked up under the key \<open>''Location''\<close> only.
\<close>

record response =
  status_code :: int
  resp_headers :: "string \<rightharpoonup> string"
  content :: string

text \<open>
  The keyword arguments of a call. \<open>kw_headers\<close> is a reference to a dict object of the
  heap (\<open>None\<close>: the key \<^verbatim>\<open>"headers"\<close> is absent), so that a dict owned by the caller and
  the one the transport receives can be the same object. \<open>kw_data\<close> and \<open>kw_json\<close> are
  the \<^verbatim>\<open>data\<close> and \<^verbatim>\<open>json\<close> keywords of the POST entry points.
\<close>

record kwargs =
  kw_headers :: "nat option"
  kw_data :: "string option"
  kw_json :: "string option"
  kw_other :: "(string \<times> string) list"

text \<open>
  What the transport receives: the verb, the url, the keyword arguments and the content
  the headers dict has when the call is made.
\<close>

record request =
  req_method :: string
  req_url :: string
  req_kwargs :: kwargs
  req_headers :: "string \<rightharpoonup> string"

text \<open>The five decorated functions; each application of the decorator has its own throttler.\<close>

datatype entry = Get | GetAsync | Stream | Post | PostAsync

text \<open>
  The state: the monotonic clock, the value of \<^verbatim>\<open>os.environ.get("EDGAR_IDENTITY")\<close>, the
  dict objects, the throttler each decorator closed over, the transport (it answers a
  request, knowing the requests made before, with the time it took and a response or an
  exception) and the requests made so far.
\<close>

record world =
  clock :: real
  environ :: "string option"
  heap :: "nat \<Rightarrow> (string \<rightharpoonup> string)"
  next_ref :: nat
  throttlers :: "entry \<Rightarrow> Throttler"
  transport :: "request list \<Rightarrow> request \<Rightarrow> real \<times> (exn + response)"
  sent :: "request list"

type_synonym 'a result = "((exn + 'a) \<times> world) option"

type_synonym 'a func =
  "string \<Rightarrow> string option \<Rightarrow> (unit \<Rightarrow> string option) option \<Rightarrow> kwargs \<Rightarrow> world \<Rightarrow> 'a result"

text \<open>\<^verbatim>\<open>time.sleep(d)\<close>: the clock advances by \<open>d\<close>.\<close>

definition sleep :: "real \<Rightarrow> world \<Rightarrow> world" where
  "sleep d w = w\<lparr>clock := clock w + d\<rparr>"

text \<open>The request a call of the transport makes, the headers dict read as it is then.\<close>

definition request_of :: "string \<Rightarrow> string \<Rightarrow> kwargs \<Rightarrow> world \<Rightarrow> request" where
  "request_of method url kw w =
     \<lparr>req_method = method, req_url = url, req_kwargs = kw,
      req_headers = (case kw_headers kw of None \<Rightarrow> Map.empty | Some a \<Rightarrow> heap w a)\<rparr>"

text \<open>
  \<^verbatim>\<open>client.get(url, **kwargs)\<close>, \<^verbatim>\<open>client.post(url, data=data, json=json, **kwargs)\<close> and
  \<^verbatim>\<open>client.stream("GET", url, **kwargs)\<close>: the transport answers, the clock advances by
  the time the call took and the request is logged.
\<close>

definition send :: "string \<Rightarrow> string \<Rightarrow> kwargs \<Rightarrow> world \<Rightarrow> (exn + response) \<times> world" where
  "send method url kw w =
     (let req = request_of method url kw w;
          (dt, answer) = transport w (sent w) req
      in (answer, w\<lparr>clock := clock w + dt, sent := sent w @ [req]\<rparr>))"

section \<open>throttle_requests\<close>

text \<open>
  The part of \<^verbatim>\<open>throttle_requests\<close> that runs when the decorator is built: the choice of
  the request rate and the construction of the throttler (whose \<^verbatim>\<open>sleep_interval\<close>
  defaults to 0.1), named after the function it decorates.
\<close>

definition throttle_requests ::
  "RequestRate option \<Rightarrow> int option \<Rightarrow> string \<Rightarrow> exn + Throttler" where
  "throttle_requests rate per_second name =
     (case per_second of
        Some n \<Rightarrow>
          (case RequestRate_init n 1 of
             Inl e \<Rightarrow> Inl e
           | Inr rr \<Rightarrow> Inr ((Throttler_init rr (1 / 10))\<lparr>decorated_function := Some name\<rparr>))
      | None \<Rightarrow>
          (case rate of
             None \<Rightarrow> Inl (ValueError ''Either request_rate or requests_per_second must be provided'')
           | Some rr \<Rightarrow> Inr ((Throttler_init rr (1 / 10))\<lparr>decorated_function := Some name\<rparr>)))"

fun entry_name :: "entry \<Rightarrow> string" where
  "entry_name Get = ''get_with_retry''"
| "entry_name GetAsync = ''get_with_retry_async''"
| "entry_name Stream = ''stream_with_retry''"
| "entry_name Post = ''post_with_retry''"
| "entry_name PostAsync = ''post_with_retry_async''"

text \<open>
  The throttlers of the module once it is imported: every entry point is decorated with
  \<^verbatim>\<open>@throttle_requests(requests_per_second=max_requests_per_second)\<close>.
\<close>

definition module_throttlers :: "entry \<Rightarrow> Throttler" where
  "module_throttlers e =
     (case throttle_requests None (Some max_requests_per_second) (entry_name e) of
        Inr th \<Rightarrow> th
      | Inl _ \<Rightarrow> Throttler_init \<lparr>max_requests = 0, time_window = 0\<rparr> 0)"

definition initial_world ::
  "(request list \<Rightarrow> request \<Rightarrow> real \<times> (exn + response)) \<Rightarrow> string option \<Rightarrow> world" where
  "initial_world tr env =
     \<lparr>clock = 0, environ = env, heap = (\<lambda>_. Map.empty), next_ref = 0,
      throttlers = module_throttlers, transport = tr, sent = []\<rparr>"

text \<open>One \<^verbatim>\<open>get_ticket\<close> call on the throttler of an entry point, at the current clock.\<close>

definition take_ticket :: "entry \<Rightarrow> world \<Rightarrow> bool \<times> world" where
  "take_ticket e w =
     (case get_ticket (clock w) (throttlers w e) of
        (b, th) \<Rightarrow> (b, w\<lparr>throttlers := (throttlers w)(e := th)\<rparr>))"

text \<open>
  \<^verbatim>\<open>Throttler.wait_for_ticket\<close>: \<^verbatim>\<open>while not self.get_ticket(): time.sleep(self.sleep_interval)\<close>.
  The loop has no bound, so the model is a partial function: \<open>None\<close> is a loop that
  never ends.
\<close>

partial_function (option) wait_for_ticket :: "entry \<Rightarrow> world \<Rightarrow> world option" where
  "wait_for_ticket e w =
     (case take_ticket e w of
        (b, w1) \<Rightarrow>
          if b then Some w1
          else wait_for_ticket e (sleep (sleep_interval (throttlers w1 e)) w1))"

declare wait_for_ticket.simps [code]

text \<open>
  The \<^verbatim>\<open>wrapper\<close> of \<^verbatim>\<open>throttle_requests\<close>: wait for a ticket, call the function, and
  update the metrics when it returned (an exception of the function leaves the wrapper
  before \<^verbatim>\<open>update_metrics\<close>).
\<close>

definition throttle_wrapper :: "entry \<Rightarrow> 'a func \<Rightarrow> 'a func" where
  "throttle_wrapper e func url identity identity_callable kw w =
     (case wait_for_ticket e w of
        None \<Rightarrow> None
      | Some w1 \<Rightarrow>
          (case func url identity identity_callable kw w1 of
             None \<Rightarrow> None
           | Some (Inl ex, w2) \<Rightarrow> Some (Inl ex, w2)
           | Some (Inr result, w2) \<Rightarrow>
               Some (Inr result,
                 w2\<lparr>throttlers := (throttlers w2)(e := update_metrics (throttlers w2 e))\<rparr>)))"

section \<open>with_identity\<close>

definition is_redirect :: "response \<Rightarrow> bool" where
  "is_redirect response \<longleftrightarrow> status_code response \<in> set [301, 302]"

text \<open>
  Lines 134 to 138 of \<^verbatim>\<open>with_identity\<close>: the identity given, else the value the callable
  returns when there is a callable, else the environment variable.
\<close>

definition resolve_identity ::
  "string option \<Rightarrow> (unit \<Rightarrow> string option) option \<Rightarrow> world \<Rightarrow> string option" where
  "resolve_identity identity identity_callable w =
     (case identity of
        Some i \<Rightarrow> Some i
      | None \<Rightarrow>
          (case identity_callable of
             Some f \<Rightarrow> f ()
           | None \<Rightarrow> environ w))"

text \<open>
  Lines 142 to 144: \<^verbatim>\<open>headers = kwargs.get("headers", {})\<close> takes the dict of the caller
  or allocates an empty one, \<^verbatim>\<open>headers["User-Agent"] = identity\<close> writes into that object
  and \<^verbatim>\<open>kwargs["headers"] = headers\<close> stores the reference.
\<close>

definition set_user_agent :: "string \<Rightarrow> kwargs \<Rightarrow> world \<Rightarrow> kwargs \<times> world" where
  "set_user_agent identity kw w =
     (let (a, w1) =
            (case kw_headers kw of
               Some a \<Rightarrow> (a, w)
             | None \<Rightarrow>
                 (next_ref w,
                  w\<lparr>heap := (heap w)(next_ref w := Map.empty), next_ref := next_ref w + 1\<rparr>))
      in (kw\<lparr>kw_headers := Some a\<rparr>,
          w1\<lparr>heap := (heap w1)(a := (heap w1 a)(''User-Agent'' \<mapsto> identity))\<rparr>))"

definition with_identity :: "'a func \<Rightarrow> 'a func" where
  "with_identity func url identity identity_callable kw w =
     (case resolve_identity identity identity_callable w of
        None \<Rightarrow> Some (Inl (IdentityNotSetException ''User-Agent identity is not set''), w)
      | Some i \<Rightarrow>
          (case set_user_agent i kw w of
             (kw1, w1) \<Rightarrow> func url (Some i) identity_callable kw1 w1))"

section \<open>The retry decorator\<close>

text \<open>
  Modelled from the spec: the decorator \<^verbatim>\<open>retry\<close> of the package \<^verbatim>\<open>stamina\<close>, which the
  module imports and whose code is not among the sources. Following section 4.3 of the
  specification: the attempt is invoked; when it raises an error of the class \<open>on\<close>, the
  layer waits and invokes it again; once \<open>max_attempts\<close> invocations are made or
  \<open>timeout\<close> seconds have passed since the start, the last error is raised to the
  caller; any other error is raised at once. The wait grows exponentially from
  \<open>wait0\<close> and never reaches past the deadline. \<open>n\<close> counts the invocations already
  made, the attempt function is told that number (so that an attempt with a memory, such
  as a mock that fails a given number of times, is a function), and the result carries
  the number of invocations made.
\<close>

function retry_from ::
  "(exn \<Rightarrow> bool) \<Rightarrow> nat \<Rightarrow> real \<Rightarrow> real \<Rightarrow> real \<Rightarrow> nat \<Rightarrow> (nat \<Rightarrow> world \<Rightarrow> 'a result) \<Rightarrow> world
     \<Rightarrow> (((exn + 'a) \<times> world) \<times> nat) option" where
  "retry_from on max_attempts timeout wait0 start n attempt w =
     (case attempt n w of
        None \<Rightarrow> None
      | Some (Inr v, w1) \<Rightarrow> Some ((Inr v, w1), Suc n)
      | Some (Inl e, w1) \<Rightarrow>
          if \<not> on e then Some ((Inl e, w1), Suc n)
          else if max_attempts \<le> Suc n \<or> timeout \<le> clock w1 - start
            then Some ((Inl e, w1), Suc n)
          else retry_from on max_attempts timeout wait0 start (Suc n) attempt
                 (sleep (min (wait0 * 2 ^ n) (start + timeout - clock w1)) w1))"
  by pat_completeness auto
termination
  by (relation "measure (\<lambda>(on, max_attempts, timeout, wait0, start, n, attempt, w). max_attempts - n)")
    auto

definition retry ::
  "(exn \<Rightarrow> bool) \<Rightarrow> nat \<Rightarrow> real \<Rightarrow> real \<Rightarrow> (world \<Rightarrow> 'a result) \<Rightarrow> world \<Rightarrow> 'a result" where
  "retry on max_attempts timeout wait0 attempt w =
     map_option fst (retry_from on max_attempts timeout wait0 (clock w) 0 (\<lambda>_. attempt) w)"

text \<open>The argument \<^verbatim>\<open>on=httpx.RequestError\<close> of every \<^verbatim>\<open>@retry\<close> of the module.\<close>

fun is_RequestError :: "exn \<Rightarrow> bool" where
  "is_RequestError (RequestError _) = True"
| "is_RequestError _ = False"

section \<open>The entry points\<close>

text \<open>
  The body shared by \<^verbatim>\<open>get_with_retry\<close> (\<open>method = ''GET''\<close>) and \<^verbatim>\<open>post_with_retry\<close>
  (\<open>method = ''POST''\<close>): the transport call, the test for 429 and the test for a
  redirect, where \<open>again\<close> is the decorated function itself, which the body calls by its
  global name. A response without a \<^verbatim>\<open>Location\<close> header makes
  \<^verbatim>\<open>response.headers["Location"]\<close> raise.
\<close>

definition request_body :: "string \<Rightarrow> response func \<Rightarrow> response func" where
  "request_body method again url identity identity_callable kw w =
     (case send method url kw w of
        (Inl e, w1) \<Rightarrow> Some (Inl e, w1)
      | (Inr response, w1) \<Rightarrow>
          if status_code response = 429 then Some (Inl (TooManyRequestsError url), w1)
          else if is_redirect response then
            (case resp_headers response ''Location'' of
               None \<Rightarrow> Some (Inl (KeyError ''Location''), w1)
             | Some location \<Rightarrow> again location identity identity_callable kw w1)
          else Some (Inr response, w1))"

text \<open>
  \<^verbatim>\<open>get_with_retry\<close> and \<^verbatim>\<open>post_with_retry\<close> under their three decorators. The first
  argument bounds the depth of the recursion through redirects, which the source does
  not bound: \<open>None\<close> is a call that needs a deeper recursion.
\<close>

primrec get_with_retry :: "nat \<Rightarrow> response func" where
  "get_with_retry 0 = (\<lambda>url identity identity_callable kw w. None)"
| "get_with_retry (Suc depth) = (\<lambda>url identity identity_callable kw.
     retry is_RequestError attempts retry_timeout wait_initial
       (with_identity (throttle_wrapper Get (request_body ''GET'' (get_with_retry depth)))
          url identity identity_callable kw))"

primrec post_with_retry :: "nat \<Rightarrow> response func" where
  "post_with_retry 0 = (\<lambda>url identity identity_callable kw w. None)"
| "post_with_retry (Suc depth) = (\<lambda>url identity identity_callable kw.
     retry is_RequestError attempts retry_timeout wait_initial
       (with_identity (throttle_wrapper Post (request_body ''POST'' (post_with_retry depth)))
          url identity identity_callable kw))"

text \<open>
  \<^verbatim>\<open>stream_with_retry\<close> is a generator function: a call of it runs nothing of its body
  and returns a generator object, so the three decorators wrap the creation of that
  object. The body runs when the generator is iterated.
\<close>

datatype generator =
  StreamGenerator string "string option" "(unit \<Rightarrow> string option) option" kwargs

datatype stream_item = ItemResponse response | ItemGenerator generator

definition stream_with_retry :: "generator func" where
  "stream_with_retry url identity identity_callable kw =
     retry is_RequestError attempts retry_timeout wait_initial
       (with_identity
          (throttle_wrapper Stream
             (\<lambda>url identity identity_callable kw w.
                Some (Inr (StreamGenerator url identity identity_callable kw), w)))
          url identity identity_callable kw)"

text \<open>
  The first \<^verbatim>\<open>next()\<close> on the generator: the body up to its \<^verbatim>\<open>yield\<close>. On a redirect
  the value of the expression \<^verbatim>\<open>stream_with_retry(response.headers["Location"], ...)\<close>
  is yielded.
\<close>

fun stream_next :: "generator \<Rightarrow> world \<Rightarrow> stream_item result" where
  "stream_next (StreamGenerator url identity identity_callable kw) w =
     (case send ''GET'' url kw w of
        (Inl e, w1) \<Rightarrow> Some (Inl e, w1)
      | (Inr response, w1) \<Rightarrow>
          if status_code response = 429 then Some (Inl (TooManyRequestsError url), w1)
          else if is_redirect response then
            (case resp_headers response ''Location'' of
               None \<Rightarrow> Some (Inl (KeyError ''Location''), w1)
             | Some location \<Rightarrow>
                 (case stream_with_retry location identity identity_callable kw w1 of
                    None \<Rightarrow> None
                  | Some (Inl e, w2) \<Rightarrow> Some (Inl e, w2)
                  | Some (Inr g, w2) \<Rightarrow> Some (Inr (ItemGenerator g), w2)))
          else Some (Inr (ItemResponse response), w1))"

text \<open>
  What \<^verbatim>\<open>for response in stream_with_retry(url)\<close> iterates over: the generator has one
  \<^verbatim>\<open>yield\<close> on each path, so the sequence has one item.
\<close>

definition stream_items :: "(stream_item list) func" where
  "stream_items url identity identity_callable kw w =
     (case stream_with_retry url identity identity_callable kw w of
        None \<Rightarrow> None
      | Some (Inl e, w1) \<Rightarrow> Some (Inl e, w1)
      | Some (Inr g, w1) \<Rightarrow>
          (case stream_next g w1 of
             None \<Rightarrow> None
           | Some (Inl e, w2) \<Rightarrow> Some (Inl e, w2)
           | Some (Inr item, w2) \<Rightarrow> Some (Inr [item], w2)))"

text \<open>
  The two \<^verbatim>\<open>async def\<close> entry points: the wrappers of \<^verbatim>\<open>with_identity\<close> and
  \<^verbatim>\<open>throttle_requests\<close> are plain functions, so a call runs them and returns the
  coroutine object of the body, which runs when it is awaited.
\<close>

datatype coroutine =
    GetCoroutine string "string option" "(unit \<Rightarrow> string option) option" kwargs
  | PostCoroutine string "string option" "(unit \<Rightarrow> string option) option" kwargs

definition get_with_retry_async :: "coroutine func" where
  "get_with_retry_async url identity identity_callable kw =
     retry is_RequestError attempts retry_timeout wait_initial
       (with_identity
          (throttle_wrapper GetAsync
             (\<lambda>url identity identity_callable kw w.
                Some (Inr (GetCoroutine url identity identity_callable kw), w)))
          url identity identity_callable kw)"

definition post_with_retry_async :: "coroutine func" where
  "post_with_retry_async url identity identity_callable kw =
     retry is_RequestError attempts retry_timeout wait_initial
       (with_identity
          (throttle_wrapper PostAsync
             (\<lambda>url identity identity_callable kw w.
                Some (Inr (PostCoroutine url identity identity_callable kw), w)))
          url identity identity_callable kw)"

text \<open>
  \<^verbatim>\<open>await\<close> of such a coroutine, the first argument bounding the depth of the recursion
  through redirects.
\<close>

fun await :: "nat \<Rightarrow> coroutine \<Rightarrow> world \<Rightarrow> response result" where
  "await 0 co w = None"
| "await (Suc depth) (GetCoroutine url identity identity_callable kw) w =
     (case send ''GET'' url kw w of
        (Inl e, w1) \<Rightarrow> Some (Inl e, w1)
      | (Inr response, w1) \<Rightarrow>
          if status_code response = 429 then Some (Inl (TooManyRequestsError url), w1)
          else if is_redirect response then
            (case resp_headers response ''Location'' of
               None \<Rightarrow> Some (Inl (KeyError ''Location''), w1)
             | Some location \<Rightarrow>
                 (case get_with_retry_async location identity identity_callable kw w1 of
                    None \<Rightarrow> None
                  | Some (Inl e, w2) \<Rightarrow> Some (Inl e, w2)
                  | Some (Inr co, w2) \<Rightarrow> await depth co w2))
          else Some (Inr response, w1))"
| "await (Suc depth) (PostCoroutine url identity identity_callable kw) w =
     (case send ''POST'' url kw w of
        (Inl e, w1) \<Rightarrow> Some (Inl e, w1)
      | (Inr response, w1) \<Rightarrow>
          if status_code response = 429 then Some (Inl (TooManyRequestsError url), w1)
          else if is_redirect response then
            (case resp_headers response ''Location'' of
               None \<Rightarrow> Some (Inl (KeyError ''Location''), w1)
             | Some location \<Rightarrow>
                 (case post_with_retry_async location identity identity_callable kw w1 of
                    None \<Rightarrow> None
                  | Some (Inl e, w2) \<Rightarrow> Some (Inl e, w2)
                  | Some (Inr co, w2) \<Rightarrow> await depth co w2))
          else Some (Inr response, w1))"

text \<open>\<^verbatim>\<open>await f(url, ...)\<close> for one of the two async entry points \<open>f\<close>.\<close>

definition await_call :: "coroutine func \<Rightarrow> nat \<Rightarrow> response func" where
  "await_call f depth url identity identity_callable kw w =
     (case f url identity identity_callable kw w of
        None \<Rightarrow> None
      | Some (Inl e, w1) \<Rightarrow> Some (Inl e, w1)
      | Some (Inr co, w1) \<Rightarrow> await depth co w1)"

section \<open>Test doubles\<close>

text \<open>
  An attempt function that raises a transient error on each of its first \<open>k\<close>
  invocations, each taking \<open>d\<close> seconds, and returns \<open>v\<close> from then on.
\<close>

definition flaky :: "nat \<Rightarrow> real \<Rightarrow> 'a \<Rightarrow> nat \<Rightarrow> world \<Rightarrow> 'a result" where
  "flaky k d v i w =
     (if i < k then Some (Inl (RequestError ''connection failed''), sleep d w) else Some (Inr v, w))"

text \<open>A transport that cannot reach any host.\<close>

definition silent_transport :: "request list \<Rightarrow> request \<Rightarrow> real \<times> (exn + response)" where
  "silent_transport hist req = (0, Inl (RequestError ''unreachable''))"

text \<open>Keyword arguments with no key, and three responses.\<close>

definition no_kwargs :: kwargs where
  "no_kwargs = \<lparr>kw_headers = None, kw_data = None, kw_json = None, kw_other = []\<rparr>"

definition ok_response :: response where
  "ok_response = \<lparr>status_code = 200, resp_headers = Map.empty, content = ''ok''\<rparr>"

definition busy_response :: response where
  "busy_response = \<lparr>status_code = 429, resp_headers = Map.empty, content = ''''\<rparr>"

definition moved_response :: "string \<Rightarrow> response" where
  "moved_response location =
     \<lparr>status_code = 302, resp_headers = [''Location'' \<mapsto> location], content = ''''\<rparr>"

text \<open>A transport that answers 429 to the first request and 200 to the later ones.\<close>

definition busy_then_ok :: "request list \<Rightarrow> request \<Rightarrow> real \<times> (exn + response)" where
  "busy_then_ok hist req = (if hist = [] then (1 / 2, Inr busy_response) else (1 / 2, Inr ok_response))"

text \<open>A transport that redirects the first request to \<open>''B''\<close> and answers 200 afterwards.\<close>

definition moved_then_ok :: "request list \<Rightarrow> request \<Rightarrow> real \<times> (exn + response)" where
  "moved_then_ok hist req =
     (if hist = [] then (1 / 2, Inr (moved_response ''B'')) else (1 / 2, Inr ok_response))"

text \<open>A transport that answers every request with the same response.\<close>

definition always :: "response \<Rightarrow> request list \<Rightarrow> request \<Rightarrow> real \<times> (exn + response)" where
  "always r hist req = (1 / 2, Inr r)"

definition not_found_response :: response where
  "not_found_response = \<lparr>status_code = 404, resp_headers = Map.empty, content = ''''\<rparr>"

section \<open>Relations between states\<close>

text \<open>
  \<open>runs_on e w w'\<close>: from \<open>w\<close> to \<open>w'\<close> the environment and the transport are the same,
  the throttlers of the entry points other than \<open>e\<close> are untouched, and the throttler of
  \<open>e\<close> has kept its request rate and its sleep interval.
\<close>

definition runs_on :: "entry \<Rightarrow> world \<Rightarrow> world \<Rightarrow> bool" where
  "runs_on e w w' \<longleftrightarrow>
     environ w' = environ w \<and> transport w' = transport w \<and>
     (\<forall>e'. e' \<noteq> e \<longrightarrow> throttlers w' e' = throttlers w e') \<and>
     request_rate (throttlers w' e) = request_rate (throttlers w e) \<and>
     sleep_interval (throttlers w' e) = sleep_interval (throttlers w e)"

text \<open>
  \<open>forwards a i w w'\<close>: from \<open>w\<close> to \<open>w'\<close> the dict object \<open>a\<close> is unchanged or has
  got \<open>i\<close> as its \<open>User-Agent\<close> entry, and every request made in between was given the
  object \<open>a\<close> as its headers, holding the entries of \<open>w\<close> with \<open>User-Agent\<close> set to \<open>i\<close>.
\<close>

definition forwards :: "nat \<Rightarrow> string \<Rightarrow> world \<Rightarrow> world \<Rightarrow> bool" where
  "forwards a i w w' \<longleftrightarrow>
     (heap w' a = heap w a \<or> heap w' a = (heap w a)(''User-Agent'' \<mapsto> i)) \<and>
     (\<exists>new. sent w' = sent w @ new \<and>
        (\<forall>q\<in>set new. kw_headers (req_kwargs q) = Some a \<and>
           req_headers q = (heap w a)(''User-Agent'' \<mapsto> i)))"

text \<open>A function all of whose calls run on the entry point \<open>e\<close>.\<close>

definition confined :: "entry \<Rightarrow> 'a func \<Rightarrow> bool" where
  "confined e f \<longleftrightarrow>
     (\<forall>url identity ic kw w res w'.
        f url identity ic kw w = Some (res, w') \<longrightarrow> runs_on e w w')"

text \<open>
  A function wrapped by \<^verbatim>\<open>with_identity\<close> that, called with a headers dict \<open>a\<close> and an
  identity that resolves to \<open>i\<close>, forwards \<open>a\<close> with \<open>i\<close> written into it; and a function
  below \<^verbatim>\<open>with_identity\<close> that forwards the dict it is given once \<open>i\<close> is written.
\<close>

definition forwarding :: "'a func \<Rightarrow> bool" where
  "forwarding f \<longleftrightarrow>
     (\<forall>url identity ic kw w res w' a i.
        f url identity ic kw w = Some (res, w') \<longrightarrow> kw_headers kw = Some a \<longrightarrow>
        resolve_identity identity ic w = Some i \<longrightarrow>
          forwards a i w w' \<and> heap w' a ''User-Agent'' = Some i)"

definition forwarding_body :: "'a func \<Rightarrow> bool" where
  "forwarding_body f \<longleftrightarrow>
     (\<forall>url ic kw w res w' a i.
        f url (Some i) ic kw w = Some (res, w') \<longrightarrow> kw_headers kw = Some a \<longrightarrow>
        heap w a ''User-Agent'' = Some i \<longrightarrow> forwards a i w w')"


text \<open>\<^verbatim>\<open>wait_for_ticket\<close> on the throttlers of a list of entry points, one after the other.\<close>

fun wait_for_tickets :: "entry list \<Rightarrow> world \<Rightarrow> world option" where
  "wait_for_tickets [] w = Some w"
| "wait_for_tickets (e # es) w =
     (case wait_for_ticket e w of None \<Rightarrow> None | Some w1 \<Rightarrow> wait_for_tickets es w1)"

text \<open>
  A world in which the caller owns a headers dict, the object 0, holding one entry.
\<close>

definition caller_world :: world where
  "caller_world =
     (initial_world (always ok_response) None)
       \<lparr>heap := (\<lambda>_. Map.empty)(0 := [''Accept'' \<mapsto> ''text/html'']), next_ref := 1\<rparr>"

text \<open>What an item of a stream is, and the url of a generator yielded as an item.\<close>

definition is_response :: "stream_item \<Rightarrow> bool" where
  "is_response item = (case item of ItemResponse _ \<Rightarrow> True | ItemGenerator _ \<Rightarrow> False)"

definition nested_url :: "stream_item \<Rightarrow> string option" where
  "nested_url item =
     (case item of
        ItemResponse _ \<Rightarrow> None
      | ItemGenerator (StreamGenerator url _ _ _) \<Rightarrow> Some url)"

text \<open>
  Following the words of the specification, not the code: the identity is the explicit
  one, else the one the callable returns, else the one of the environment.
\<close>

definition claimed_identity ::
  "string option \<Rightarrow> (unit \<Rightarrow> string option) option \<Rightarrow> world \<Rightarrow> string option" where
  "claimed_identity identity identity_callable w =
     (case identity of
        Some i \<Rightarrow> Some i
      | None \<Rightarrow>
          (case (case identity_callable of Some f \<Rightarrow> f () | None \<Rightarrow> None) of
             Some i \<Rightarrow> Some i
           | None \<Rightarrow> environ w))"

text \<open>An identity callable that returns \<^verbatim>\<open>None\<close>.\<close>

definition no_result :: "unit \<Rightarrow> string option" where
  "no_result u = None"

section \<open>Properties of the rate limiter\<close>

lemma popleft_expired_dropWhile:
  "popleft_expired bound xs = dropWhile (\<lambda>x. x \<le> bound) xs"
  by (induction xs) simp_all

lemma popleft_expired_split:
  "takeWhile (\<lambda>x. x \<le> bound) xs @ popleft_expired bound xs = xs"
  by (simp add: popleft_expired_dropWhile)

lemma popleft_expired_drop:
  "\<exists>k. popleft_expired bound xs = drop k xs"
  by (metis popleft_expired_dropWhile dropWhile_eq_drop)

lemma sorted_popleft_expired:
  "sorted xs \<Longrightarrow> sorted (popleft_expired bound xs)"
  by (simp add: popleft_expired_dropWhile sorted_dropWhile)

lemma set_popleft_expired:
  "set (popleft_expired bound xs) \<subseteq> set xs"
  by (simp add: popleft_expired_dropWhile set_dropWhileD subsetI)

lemma get_ticket_rate: "request_rate (snd (get_ticket t th)) = request_rate th"
  by (simp add: get_ticket_def Let_def)




lemma get_ticket_step:
  "\<exists>k. request_timestamps (snd (get_ticket t th)) =
        drop k (request_timestamps th) @ (if fst (get_ticket t th) then [t] else [])"
proof -
  obtain k where "popleft_expired (t - real_of_int (time_window (request_rate th))) (request_timestamps th)
      = drop k (request_timestamps th)"
    using popleft_expired_drop by blast
  then show ?thesis
    by (auto simp: get_ticket_def Let_def)
qed

lemma filter_window_expired:
  assumes "\<forall>x\<in>set xs. x \<le> t - w" and "t \<le> t0"
  shows "filter (in_window w t0) xs = []"
  using assms by (auto simp: filter_empty_conv in_window_def)

lemma get_tickets_window:
  assumes "sorted cs"
    and "\<forall>x\<in>set old. \<forall>t\<in>set cs. x \<le> t - real_of_int (time_window (request_rate th))"
    and "\<forall>t0. int (length (filter (in_window (real_of_int (time_window (request_rate th))) t0)
            (old @ request_timestamps th))) \<le> max_requests (request_rate th)"
  shows "int (length (filter (in_window (real_of_int (time_window (request_rate th))) t0)
            (old @ request_timestamps th @ admitted cs (fst (get_tickets cs th)))))
          \<le> max_requests (request_rate th)"
  using assms
proof (induction cs arbitrary: old th t0)
  case Nil
  then show ?case by (simp add: admitted_def)
next
  case (Cons t ts)
  define w where "w = real_of_int (time_window (request_rate th))"
  define dq where "dq = request_timestamps th"
  define gone where "gone = takeWhile (\<lambda>x. x \<le> t - w) dq"
  define keep where "keep = popleft_expired (t - w) dq"
  define new where "new = (if fst (get_ticket t th) then [t] else [])"
  define th1 where "th1 = snd (get_ticket t th)"
  define rest where "rest = admitted ts (fst (get_tickets ts th1))"
  have rr: "request_rate th1 = request_rate th"
    unfolding th1_def by (rule get_ticket_rate)
  have split: "dq = gone @ keep"
    unfolding gone_def keep_def by (simp add: popleft_expired_split)
  have gone_le: "\<forall>x\<in>set gone. x \<le> t - w"
    unfolding gone_def by (auto dest: set_takeWhileD)
  have old_le: "\<forall>x\<in>set old. x \<le> t - w" using Cons.prems(2) by (simp add: w_def)
  have ts_ge: "\<forall>t'\<in>set ts. t \<le> t'" using Cons.prems(1) by simp
  have dq1: "request_timestamps th1 = keep @ new"
    unfolding th1_def new_def keep_def dq_def w_def by (simp add: get_ticket_def Let_def)
  have len: "new \<noteq> [] \<Longrightarrow> int (length keep) < max_requests (request_rate th)"
    unfolding new_def keep_def dq_def w_def by (simp add: get_ticket_def Let_def split: if_splits)
  have new_t: "set new \<subseteq> {t}" "length new \<le> 1" unfolding new_def by auto
  have adm: "admitted (t # ts) (fst (get_tickets (t # ts) th)) = new @ rest"
    unfolding new_def rest_def th1_def
    by (simp add: admitted_def split: prod.splits)
  have p1: "sorted ts" using Cons.prems(1) by simp
  have p2: "\<forall>x\<in>set (old @ gone). \<forall>t'\<in>set ts. x \<le> t' - real_of_int (time_window (request_rate th1))"
  proof (intro ballI)
    fix x t' assume "x \<in> set (old @ gone)" "t' \<in> set ts"
    then have "x \<le> t - w" "t \<le> t'" using old_le gone_le ts_ge by auto
    then show "x \<le> t' - real_of_int (time_window (request_rate th1))" using rr by (simp add: w_def)
  qed
  have p3: "\<forall>t0. int (length (filter (in_window (real_of_int (time_window (request_rate th1))) t0)
            ((old @ gone) @ request_timestamps th1))) \<le> max_requests (request_rate th1)"
  proof
    fix t0
    have "int (length (filter (in_window w t0) ((old @ gone) @ keep @ new)))
        \<le> max_requests (request_rate th)"
    proof (cases "new \<noteq> [] \<and> t \<le> t0")
      case True
      have "filter (in_window w t0) (old @ gone) = []"
        using filter_window_expired[of "old @ gone" t w t0] old_le gone_le True by auto
      then have "length (filter (in_window w t0) ((old @ gone) @ keep @ new))
          = length (filter (in_window w t0) (keep @ new))"
        by simp
      also have "\<dots> \<le> length (keep @ new)" by (rule length_filter_le)
      also have "\<dots> \<le> length keep + 1" using new_t(2) by simp
      finally show ?thesis using len True by simp
    next
      case False
      have "filter (in_window w t0) new = []"
        using False new_t(1) by (auto simp: filter_empty_conv in_window_def)
      then have "filter (in_window w t0) ((old @ gone) @ keep @ new) =
          filter (in_window w t0) (old @ dq)"
        using split by simp
      then show ?thesis using Cons.prems(3) by (simp add: w_def dq_def)
    qed
    then show "int (length (filter (in_window (real_of_int (time_window (request_rate th1))) t0)
            ((old @ gone) @ request_timestamps th1))) \<le> max_requests (request_rate th1)"
      using rr dq1 by (simp add: w_def)
  qed
  have "int (length (filter (in_window (real_of_int (time_window (request_rate th1))) t0)
            ((old @ gone) @ request_timestamps th1 @ rest))) \<le> max_requests (request_rate th1)"
    unfolding rest_def using Cons.IH[OF p1 p2 p3] by simp
  then show ?case
    unfolding adm using rr dq1 split by (simp add: w_def dq_def)
qed

lemma get_tickets_sorted:
  assumes "sorted cs" and "sorted (request_timestamps th)"
    and "\<forall>x\<in>set (request_timestamps th). \<forall>t\<in>set cs. x \<le> t"
  shows "sorted (request_timestamps (snd (get_tickets cs th)))"
  using assms
proof (induction cs arbitrary: th)
  case Nil
  then show ?case by simp
next
  case (Cons t ts)
  define th1 where "th1 = snd (get_ticket t th)"
  define keep where "keep = popleft_expired (t - real_of_int (time_window (request_rate th))) (request_timestamps th)"
  have keep_sub: "set keep \<subseteq> set (request_timestamps th)"
    unfolding keep_def by (rule set_popleft_expired)
  have keep_sorted: "sorted keep"
    unfolding keep_def using Cons.prems(2) by (rule sorted_popleft_expired)
  have dq1: "request_timestamps th1 = keep \<or> request_timestamps th1 = keep @ [t]"
    unfolding th1_def keep_def by (simp add: get_ticket_def Let_def)
  have keep_le: "\<forall>x\<in>set keep. x \<le> t" using keep_sub Cons.prems(3) by auto
  have s1: "sorted (request_timestamps th1)"
    using dq1 keep_sorted keep_le by (auto simp: sorted_append)
  have ts_ge: "\<forall>t'\<in>set ts. t \<le> t'" using Cons.prems(1) by simp
  have le1: "\<forall>x\<in>set (request_timestamps th1). \<forall>t'\<in>set ts. x \<le> t'"
    using dq1 keep_le ts_ge by fastforce
  have "sorted (request_timestamps (snd (get_tickets ts th1)))"
    using Cons.IH[OF _ s1 le1] Cons.prems(1) by simp
  then show ?case
    unfolding th1_def by (simp add: case_prod_beta)
qed

text \<open>
  Claim C2. On a throttler built from \<^verbatim>\<open>RequestRate(N, W)\<close>, whatever the sequence of
  \<^verbatim>\<open>get_ticket\<close> calls (the readings of the monotonic clock never decrease): for every
  \<open>t\<close>, at most \<open>N\<close> of the admitted calls have their timestamp in the trailing window
  \<open>(t - W, t]\<close>; the deque stays ascending; and each call drops some front elements and
  appends the current reading at the back exactly when it admits.
\<close>

theorem throttler_window_invariant:
  assumes "RequestRate_init N W = Inr rr" and "sorted cs"
  shows "int (length (filter (in_window (real_of_int W) t)
           (admitted cs (fst (get_tickets cs (Throttler_init rr si)))))) \<le> N \<and>
         sorted (request_timestamps (snd (get_tickets cs (Throttler_init rr si)))) \<and>
         (\<forall>c th. \<exists>k. request_timestamps (snd (get_ticket c th)) =
            drop k (request_timestamps th) @ (if fst (get_ticket c th) then [c] else []))"
proof -
  from assms(1) have rr: "rr = \<lparr>max_requests = N, time_window = W\<rparr>" and pos: "0 < N"
    by (auto simp: RequestRate_init_def split: if_splits)
  let ?th = "Throttler_init rr si"
  have f: "request_rate ?th = rr" "request_timestamps ?th = []"
    by (simp_all add: Throttler_init_def)
  have "int (length (filter (in_window (real_of_int (time_window (request_rate ?th))) t)
            ([] @ request_timestamps ?th @ admitted cs (fst (get_tickets cs ?th)))))
          \<le> max_requests (request_rate ?th)"
    by (rule get_tickets_window) (use assms(2) pos f rr in simp_all)
  then have a: "int (length (filter (in_window (real_of_int W) t)
           (admitted cs (fst (get_tickets cs ?th))))) \<le> N"
    using f rr by simp
  have b: "sorted (request_timestamps (snd (get_tickets cs ?th)))"
    by (rule get_tickets_sorted) (use assms(2) f in simp_all)
  show ?thesis using a b get_ticket_step by blast
qed

theorem throttler_window_invariant_witness:
  "RequestRate_init 2 1 = Inr \<lparr>max_requests = 2, time_window = 1\<rparr> \<and>
   sorted [0, 1 / 2, 3 / 4, 1 :: real] \<and>
   admitted [0, 1 / 2, 3 / 4, 1]
     (fst (get_tickets [0, 1 / 2, 3 / 4, 1]
        (Throttler_init \<lparr>max_requests = 2, time_window = 1\<rparr> (1 / 10)))) = [0, 1 / 2, 1] \<and>
   int (length (filter (in_window (real_of_int 1) 1)
     (admitted [0, 1 / 2, 3 / 4, 1]
        (fst (get_tickets [0, 1 / 2, 3 / 4, 1]
           (Throttler_init \<lparr>max_requests = 2, time_window = 1\<rparr> (1 / 10))))))) \<le> 2"
proof -
  have h1: "RequestRate_init 2 1 = Inr \<lparr>max_requests = 2, time_window = 1\<rparr>"
    by (simp add: RequestRate_init_def)
  have h2: "sorted [0, 1 / 2, 3 / 4, 1 :: real]" by simp
  have ev: "admitted [0, 1 / 2, 3 / 4, 1]
     (fst (get_tickets [0, 1 / 2, 3 / 4, 1]
        (Throttler_init \<lparr>max_requests = 2, time_window = 1\<rparr> (1 / 10)))) = [0, 1 / 2, 1]"
    by (simp add: admitted_def get_ticket_def Throttler_init_def Let_def)
  show ?thesis
    using throttler_window_invariant[OF h1 h2, of 1 "1 / 10"] h1 h2 ev by blast
qed

section \<open>Properties of the retry layer\<close>

lemma retry_from_succeeds:
  assumes fail: "\<And>i w. i < k \<Longrightarrow> \<exists>e w1. attempt i w = Some (Inl e, w1) \<and> on e \<and> clock w1 \<le> clock w + d"
    and succ: "\<And>w. \<exists>v w1. attempt k w = Some (Inr v, w1)"
    and wait0: "0 \<le> wait0"
    and intime: "\<And>n. n < k \<Longrightarrow> real (Suc n) * d + wait0 * (2 ^ n - 1) < timeout"
    and km: "k < m"
  shows "n \<le> k \<Longrightarrow> clock w - start \<le> real n * d + wait0 * (2 ^ n - 1) \<Longrightarrow>
    \<exists>v w1. retry_from on m timeout wait0 start n attempt w = Some ((Inr v, w1), Suc k)"
proof (induction "k - n" arbitrary: n w)
  case 0
  then have "n = k" by simp
  moreover obtain v w1 where "attempt k w = Some (Inr v, w1)" using succ by blast
  ultimately show ?case by (subst retry_from.simps) simp
next
  case (Suc j)
  then have nk: "n < k" by simp
  obtain e w1 where a: "attempt n w = Some (Inl e, w1)" and e: "on e"
    and c: "clock w1 \<le> clock w + d"
    using fail[OF nk] by blast
  have el: "clock w1 - start \<le> real (Suc n) * d + wait0 * (2 ^ n - 1)"
    using c Suc.prems(2) by (simp add: algebra_simps)
  then have lt: "clock w1 - start < timeout" using intime[OF nk] by simp
  define w2 where "w2 = sleep (min (wait0 * 2 ^ n) (start + timeout - clock w1)) w1"
  have "clock w2 \<le> clock w1 + wait0 * 2 ^ n"
    unfolding w2_def sleep_def by simp
  then have inv: "clock w2 - start \<le> real (Suc n) * d + wait0 * (2 ^ Suc n - 1)"
    using el by (simp add: algebra_simps)
  have "\<exists>v w1. retry_from on m timeout wait0 start (Suc n) attempt w2 = Some ((Inr v, w1), Suc k)"
    by (rule Suc.hyps(1)) (use Suc.hyps(2) nk inv in simp_all)
  moreover have "retry_from on m timeout wait0 start n attempt w
      = retry_from on m timeout wait0 start (Suc n) attempt w2"
    using a e lt km nk unfolding w2_def by (subst retry_from.simps) simp
  ultimately show ?case by simp
qed

lemma retry_from_exhausts:
  assumes fail: "\<And>i w. i < k \<Longrightarrow> \<exists>e w1. attempt i w = Some (Inl e, w1) \<and> on e \<and> clock w1 \<le> clock w + d"
    and wait0: "0 \<le> wait0"
    and intime: "\<And>n. n < m - 1 \<Longrightarrow> real (Suc n) * d + wait0 * (2 ^ n - 1) < timeout"
    and mk: "m \<le> k"
  shows "n < m \<Longrightarrow> clock w - start \<le> real n * d + wait0 * (2 ^ n - 1) \<Longrightarrow>
    \<exists>e w0 w1. on e \<and> attempt (m - 1) w0 = Some (Inl e, w1) \<and>
      retry_from on m timeout wait0 start n attempt w = Some ((Inl e, w1), m)"
proof (induction "m - Suc n" arbitrary: n w)
  case 0
  then have n: "Suc n = m" by simp
  then have "n < k" using mk by simp
  then obtain e w1 where a: "attempt n w = Some (Inl e, w1)" and e: "on e"
    using fail by blast
  have "retry_from on m timeout wait0 start n attempt w = Some ((Inl e, w1), m)"
    using a e n by (subst retry_from.simps) auto
  moreover have "attempt (m - 1) w = Some (Inl e, w1)" using a n by auto
  ultimately show ?case using e by blast
next
  case (Suc j)
  then have nm: "Suc n < m" by simp
  then have nk: "n < k" using mk by simp
  obtain e w1 where a: "attempt n w = Some (Inl e, w1)" and e: "on e"
    and c: "clock w1 \<le> clock w + d"
    using fail[OF nk] by blast
  have el: "clock w1 - start \<le> real (Suc n) * d + wait0 * (2 ^ n - 1)"
    using c Suc.prems(2) by (simp add: algebra_simps)
  have "n < m - 1" using nm by simp
  then have lt: "clock w1 - start < timeout" using intime el by fastforce
  define w2 where "w2 = sleep (min (wait0 * 2 ^ n) (start + timeout - clock w1)) w1"
  have "clock w2 \<le> clock w1 + wait0 * 2 ^ n"
    unfolding w2_def sleep_def by simp
  then have inv: "clock w2 - start \<le> real (Suc n) * d + wait0 * (2 ^ Suc n - 1)"
    using el by (simp add: algebra_simps)
  have "\<exists>e w0 w1. on e \<and> attempt (m - 1) w0 = Some (Inl e, w1) \<and>
      retry_from on m timeout wait0 start (Suc n) attempt w2 = Some ((Inl e, w1), m)"
    by (rule Suc.hyps(1)) (use Suc.hyps(2) nm inv in simp_all)
  moreover have "retry_from on m timeout wait0 start n attempt w
      = retry_from on m timeout wait0 start (Suc n) attempt w2"
    using a e lt nm unfolding w2_def by (subst retry_from.simps) simp
  ultimately show ?case by simp
qed

text \<open>
  Claim C3. The retry layer around an attempt function that raises a transient error
  (one of the class \<open>on\<close>) on each of its first \<open>k\<close> invocations and returns on the next
  one, each failing invocation taking at most \<open>d\<close> seconds, while the overall timeout
  does not elapse: with \<open>max_attempts > k\<close> the call returns and the attempt function has
  been invoked \<open>k + 1\<close> times; with \<open>0 < max_attempts \<le> k\<close> the call raises after
  \<open>max_attempts\<close> invocations, and the error is the one the last invocation raised.
\<close>

theorem retry_attempt_count:
  assumes "\<forall>i<k. \<forall>w. \<exists>e w1. attempt i w = Some (Inl e, w1) \<and> on e \<and> clock w1 \<le> clock w + d"
    and "\<forall>w. \<exists>v w1. attempt k w = Some (Inr v, w1)"
    and "0 \<le> wait0"
    and "\<forall>n<min k (max_attempts - 1). real (Suc n) * d + wait0 * (2 ^ n - 1) < timeout"
  shows "(k < max_attempts \<longrightarrow>
           (\<exists>v w1. retry_from on max_attempts timeout wait0 (clock w) 0 attempt w
              = Some ((Inr v, w1), k + 1))) \<and>
         (0 < max_attempts \<and> max_attempts \<le> k \<longrightarrow>
           (\<exists>e w0 w1. on e \<and> attempt (max_attempts - 1) w0 = Some (Inl e, w1) \<and>
              retry_from on max_attempts timeout wait0 (clock w) 0 attempt w
                = Some ((Inl e, w1), max_attempts)))"
proof (intro conjI impI)
  assume km: "k < max_attempts"
  have "\<exists>v w1. retry_from on max_attempts timeout wait0 (clock w) 0 attempt w
      = Some ((Inr v, w1), Suc k)"
  proof (rule retry_from_succeeds[where k = k and d = d])
    show "\<And>n. n < k \<Longrightarrow> real (Suc n) * d + wait0 * (2 ^ n - 1) < timeout"
      using assms(4) km by (simp add: min_def)
  qed (use assms km in simp_all)
  then show "\<exists>v w1. retry_from on max_attempts timeout wait0 (clock w) 0 attempt w
      = Some ((Inr v, w1), k + 1)" by simp
next
  assume mk: "0 < max_attempts \<and> max_attempts \<le> k"
  show "\<exists>e w0 w1. on e \<and> attempt (max_attempts - 1) w0 = Some (Inl e, w1) \<and>
      retry_from on max_attempts timeout wait0 (clock w) 0 attempt w
        = Some ((Inl e, w1), max_attempts)"
  proof (rule retry_from_exhausts[where k = k and d = d])
    show "\<And>n. n < max_attempts - 1 \<Longrightarrow> real (Suc n) * d + wait0 * (2 ^ n - 1) < timeout"
      using assms(4) mk by (simp add: min_def split: if_splits)
  qed (use assms mk in simp_all)
qed

lemma small_cases: "n < 2 \<Longrightarrow> real (Suc n) * 1 + (1 / 10) * (2 ^ n - 1) < (40::real)"
proof -
  assume "n < 2"
  then have "n = 0 \<or> n = 1" by auto
  then show ?thesis by auto
qed

theorem retry_attempt_count_witness:
  "(\<exists>v w1. retry_from is_RequestError 6 40 (1 / 10) (clock (initial_world silent_transport None)) 0
       (flaky 2 1 (7::nat)) (initial_world silent_transport None) = Some ((Inr v, w1), 2 + 1)) \<and>
   (\<exists>e w0 w1. is_RequestError e \<and> flaky 5 1 (7::nat) (2 - 1) w0 = Some (Inl e, w1) \<and>
       retry_from is_RequestError 2 40 (1 / 10) (clock (initial_world silent_transport None)) 0
         (flaky 5 1 (7::nat)) (initial_world silent_transport None) = Some ((Inl e, w1), 2))"
proof -
  have a1: "\<forall>i<2. \<forall>w. \<exists>e w1. flaky 2 1 (7::nat) i w = Some (Inl e, w1) \<and> is_RequestError e \<and> clock w1 \<le> clock w + 1"
    by (simp add: flaky_def sleep_def)
  have a2: "\<forall>w. \<exists>v w1. flaky 2 1 (7::nat) 2 w = Some (Inr v, w1)"
    by (simp add: flaky_def)
  have a3: "(0::real) \<le> 1 / 10" by simp
  have a4: "\<forall>n<min 2 (6 - 1). real (Suc n) * 1 + (1 / 10) * (2 ^ n - 1) < (40::real)"
    using small_cases by simp
  have b1: "\<forall>i<5. \<forall>w. \<exists>e w1. flaky 5 1 (7::nat) i w = Some (Inl e, w1) \<and> is_RequestError e \<and> clock w1 \<le> clock w + 1"
    by (simp add: flaky_def sleep_def)
  have b2: "\<forall>w. \<exists>v w1. flaky 5 1 (7::nat) 5 w = Some (Inr v, w1)"
    by (simp add: flaky_def)
  have b4: "\<forall>n<min 5 (2 - 1). real (Suc n) * 1 + (1 / 10) * (2 ^ n - 1) < (40::real)"
    using small_cases by simp
  show ?thesis
    using retry_attempt_count[OF a1 a2 a3 a4, where w = "initial_world silent_transport None"]
      retry_attempt_count[OF b1 b2 a3 b4, where w = "initial_world silent_transport None"]
    by simp
qed

section \<open>Properties of wait_for_ticket\<close>

lemma get_ticket_shape:
  "\<exists>ts. get_ticket t th = (False, th\<lparr>request_timestamps := ts\<rparr>) \<or>
        get_ticket t th = (True, th\<lparr>request_timestamps := ts @ [t]\<rparr>)"
proof -
  define keep where "keep = popleft_expired (t - real_of_int (time_window (request_rate th)))
                 (request_timestamps th)"
  have "get_ticket t th = (False, th\<lparr>request_timestamps := keep\<rparr>) \<or>
        get_ticket t th = (True, th\<lparr>request_timestamps := keep @ [t]\<rparr>)"
    unfolding keep_def by (simp add: get_ticket_def Let_def)
  then show ?thesis by blast
qed

lemma take_ticket_shape:
  "\<exists>ts. take_ticket e w =
          (False, w\<lparr>throttlers := (throttlers w)(e := (throttlers w e)\<lparr>request_timestamps := ts\<rparr>)\<rparr>) \<or>
        take_ticket e w =
          (True, w\<lparr>throttlers := (throttlers w)(e := (throttlers w e)\<lparr>request_timestamps := ts @ [clock w]\<rparr>)\<rparr>)"
  using get_ticket_shape[of "clock w" "throttlers w e"]
  by (auto simp: take_ticket_def)

lemma wait_for_ticket_shape:
  assumes "wait_for_ticket e w = Some w'"
  shows "\<exists>c ts. w' = w\<lparr>clock := c,
            throttlers := (throttlers w)(e := (throttlers w e)\<lparr>request_timestamps := ts @ [c]\<rparr>)\<rparr>"
proof (rule wait_for_ticket.raw_induct[where P = "\<lambda>e w w'. \<exists>c ts. w' = w\<lparr>clock := c,
            throttlers := (throttlers w)(e := (throttlers w e)\<lparr>request_timestamps := ts @ [c]\<rparr>)\<rparr>",
      OF _ assms])
  fix wait :: "entry \<Rightarrow> world \<Rightarrow> world option" and e w w'
  assume IH: "\<And>e w y. wait e w = Some y \<Longrightarrow> \<exists>c ts. y = w\<lparr>clock := c,
            throttlers := (throttlers w)(e := (throttlers w e)\<lparr>request_timestamps := ts @ [c]\<rparr>)\<rparr>"
    and body: "(case take_ticket e w of
      (b, w1) \<Rightarrow> if b then Some w1 else wait e (sleep (sleep_interval (throttlers w1 e)) w1)) = Some w'"
  obtain ts where ts: "take_ticket e w =
          (False, w\<lparr>throttlers := (throttlers w)(e := (throttlers w e)\<lparr>request_timestamps := ts\<rparr>)\<rparr>) \<or>
        take_ticket e w =
          (True, w\<lparr>throttlers := (throttlers w)(e := (throttlers w e)\<lparr>request_timestamps := ts @ [clock w]\<rparr>)\<rparr>)"
    using take_ticket_shape by blast
  then show "\<exists>c ts. w' = w\<lparr>clock := c,
            throttlers := (throttlers w)(e := (throttlers w e)\<lparr>request_timestamps := ts @ [c]\<rparr>)\<rparr>"
  proof
    assume f: "take_ticket e w =
          (False, w\<lparr>throttlers := (throttlers w)(e := (throttlers w e)\<lparr>request_timestamps := ts\<rparr>)\<rparr>)"
    define w2 where "w2 = sleep (sleep_interval (throttlers w e))
        (w\<lparr>throttlers := (throttlers w)(e := (throttlers w e)\<lparr>request_timestamps := ts\<rparr>)\<rparr>)"
    have "wait e w2 = Some w'" using body f by (simp add: w2_def)
    then obtain c ts' where "w' = w2\<lparr>clock := c,
            throttlers := (throttlers w2)(e := (throttlers w2 e)\<lparr>request_timestamps := ts' @ [c]\<rparr>)\<rparr>"
      using IH by blast
    then have "w' = w\<lparr>clock := c,
            throttlers := (throttlers w)(e := (throttlers w e)\<lparr>request_timestamps := ts' @ [c]\<rparr>)\<rparr>"
      by (simp add: w2_def sleep_def)
    then show ?thesis by blast
  next
    assume t: "take_ticket e w =
          (True, w\<lparr>throttlers := (throttlers w)(e := (throttlers w e)\<lparr>request_timestamps := ts @ [clock w]\<rparr>)\<rparr>)"
    then have "w' = w\<lparr>clock := clock w, throttlers := (throttlers w)(e := (throttlers w e)\<lparr>request_timestamps := ts @ [clock w]\<rparr>)\<rparr>"
      using body by simp
    then show ?thesis by blast
  qed
qed

lemma bounded_by_nat:
  fixes xs :: "real list"
  shows "\<exists>n::nat. \<forall>x\<in>set xs. x \<le> real n"
proof (induction xs)
  case Nil
  then show ?case by simp
next
  case (Cons x xs)
  then obtain n where n: "\<forall>y\<in>set xs. y \<le> real n" by blast
  obtain m :: nat where m: "x \<le> real m" using real_arch_simple by blast
  have "\<forall>y\<in>set (x # xs). y \<le> real (max n m)"
    using n m by (auto simp: max_def intro: order_trans)
  then show ?case by blast
qed

lemma popleft_expired_all:
  "\<forall>x\<in>set xs. x \<le> bound \<Longrightarrow> popleft_expired bound xs = []"
  by (induction xs) simp_all

lemma wait_for_ticket_measure:
  assumes "0 < max_requests (request_rate (throttlers w e))"
    and "0 < sleep_interval (throttlers w e)"
    and "\<forall>x\<in>set (request_timestamps (throttlers w e)).
           x + real_of_int (time_window (request_rate (throttlers w e))) - clock w
             \<le> real n * sleep_interval (throttlers w e)"
  shows "\<exists>w'. wait_for_ticket e w = Some w'"
  using assms
proof (induction n arbitrary: w)
  case 0
  then have "popleft_expired (clock w - real_of_int (time_window (request_rate (throttlers w e))))
      (request_timestamps (throttlers w e)) = []"
    by (intro popleft_expired_all) (auto simp: algebra_simps)
  then have "fst (take_ticket e w)"
    using "0.prems"(1) by (simp add: take_ticket_def get_ticket_def)
  then show ?case
    by (subst wait_for_ticket.simps) (auto split: prod.splits)
next
  case (Suc n)
  define th where "th = throttlers w e"
  define keep where "keep = popleft_expired (clock w - real_of_int (time_window (request_rate th)))
      (request_timestamps th)"
  show ?case
  proof (cases "fst (take_ticket e w)")
    case True
    then show ?thesis
      by (subst wait_for_ticket.simps) (auto split: prod.splits)
  next
    case False
    define w1 where "w1 = snd (take_ticket e w)"
    define w2 where "w2 = sleep (sleep_interval (throttlers w1 e)) w1"
    have w1: "w1 = w\<lparr>throttlers := (throttlers w)(e := th\<lparr>request_timestamps := keep\<rparr>)\<rparr>"
      using False unfolding w1_def th_def keep_def
      by (simp add: take_ticket_def get_ticket_def Let_def split: if_splits)
    have th2: "throttlers w2 e = th\<lparr>request_timestamps := keep\<rparr>"
      and c2: "clock w2 = clock w + sleep_interval th"
      unfolding w2_def w1 by (simp_all add: sleep_def)
    have keep_sub: "set keep \<subseteq> set (request_timestamps th)"
      unfolding keep_def by (rule set_popleft_expired)
    have "\<forall>x\<in>set (request_timestamps (throttlers w2 e)).
           x + real_of_int (time_window (request_rate (throttlers w2 e))) - clock w2
             \<le> real n * sleep_interval (throttlers w2 e)"
    proof
      fix x assume "x \<in> set (request_timestamps (throttlers w2 e))"
      then have "x \<in> set (request_timestamps th)" using keep_sub th2 by auto
      then have "x + real_of_int (time_window (request_rate th)) - clock w
             \<le> real (Suc n) * sleep_interval th"
        using Suc.prems(3) by (simp add: th_def)
      then show "x + real_of_int (time_window (request_rate (throttlers w2 e))) - clock w2
             \<le> real n * sleep_interval (throttlers w2 e)"
        using th2 c2 by (simp add: algebra_simps)
    qed
    moreover have "0 < max_requests (request_rate (throttlers w2 e))"
      "0 < sleep_interval (throttlers w2 e)"
      using Suc.prems(1,2) th2 by (simp_all add: th_def)
    ultimately obtain w' where "wait_for_ticket e w2 = Some w'"
      using Suc.IH by blast
    moreover have "wait_for_ticket e w = wait_for_ticket e w2"
      using False unfolding w2_def w1_def
      by (subst wait_for_ticket.simps) (auto split: prod.splits)
    ultimately show ?thesis by simp
  qed
qed

lemma wait_for_ticket_returns:
  assumes "0 < max_requests (request_rate (throttlers w e))"
    and "0 < sleep_interval (throttlers w e)"
  shows "\<exists>w'. wait_for_ticket e w = Some w'"
proof -
  define si where "si = sleep_interval (throttlers w e)"
  define W where "W = real_of_int (time_window (request_rate (throttlers w e)))"
  obtain n :: nat where n: "\<forall>y\<in>set (map (\<lambda>x. (x + W - clock w) / si) (request_timestamps (throttlers w e))). y \<le> real n"
    using bounded_by_nat by blast
  have "\<forall>x\<in>set (request_timestamps (throttlers w e)). x + W - clock w \<le> real n * si"
  proof
    fix x assume "x \<in> set (request_timestamps (throttlers w e))"
    then have "(x + W - clock w) / si \<le> real n" using n by simp
    then show "x + W - clock w \<le> real n * si"
      using assms(2) by (simp add: si_def pos_divide_le_eq)
  qed
  then show ?thesis
    using wait_for_ticket_measure[OF assms] by (simp add: si_def W_def)
qed

section \<open>One pass through the decorators\<close>

lemma retry_returns:
  "attempt w = Some (Inr v, w1) \<Longrightarrow> retry on m t w0 attempt w = Some (Inr v, w1)"
  unfolding retry_def by (subst retry_from.simps) simp

lemma retry_raises:
  "attempt w = Some (Inl e, w1) \<Longrightarrow> \<not> on e \<Longrightarrow> retry on m t w0 attempt w = Some (Inl e, w1)"
  unfolding retry_def by (subst retry_from.simps) simp

lemma is_RequestError_simps [simp]:
  "\<not> is_RequestError (TooManyRequestsError u)"
  "\<not> is_RequestError (IdentityNotSetException s)"
  "\<not> is_RequestError (KeyError s)"
  by simp_all

lemma set_user_agent_frame:
  assumes "set_user_agent i kw w = (kw1, wa)"
  shows "clock wa = clock w" "environ wa = environ w" "throttlers wa = throttlers w"
    "transport wa = transport w" "sent wa = sent w"
  using assms by (auto simp: set_user_agent_def Let_def split: option.splits)

lemma with_identity_unset:
  "resolve_identity identity ic w = None \<Longrightarrow>
   with_identity func url identity ic kw w =
     Some (Inl (IdentityNotSetException ''User-Agent identity is not set''), w)"
  by (simp add: with_identity_def)

lemma with_identity_set:
  "resolve_identity identity ic w = Some i \<Longrightarrow> set_user_agent i kw w = (kw1, wa) \<Longrightarrow>
   with_identity func url identity ic kw w = func url (Some i) ic kw1 wa"
  by (simp add: with_identity_def)

lemma request_of_heap:
  "heap w1 = heap w \<Longrightarrow> request_of verb url kw w1 = request_of verb url kw w"
  by (simp add: request_of_def split: option.splits)

text \<open>One pass through with_identity and the throttle wrapper.\<close>

lemma hop:
  assumes id: "resolve_identity identity ic w = Some i"
    and ok: "0 < max_requests (request_rate (throttlers w e))" "0 < sleep_interval (throttlers w e)"
    and sua: "set_user_agent i kw w = (kw1, wa)"
  shows "\<exists>c ts w1. w1 = wa\<lparr>clock := c,
            throttlers := (throttlers wa)(e := (throttlers wa e)\<lparr>request_timestamps := ts @ [c]\<rparr>)\<rparr> \<and>
          wait_for_ticket e wa = Some w1 \<and>
          with_identity (throttle_wrapper e func) url identity ic kw w =
            (case func url (Some i) ic kw1 w1 of
               None \<Rightarrow> None
             | Some (Inl ex, w2) \<Rightarrow> Some (Inl ex, w2)
             | Some (Inr r, w2) \<Rightarrow>
                 Some (Inr r, w2\<lparr>throttlers := (throttlers w2)(e := update_metrics (throttlers w2 e))\<rparr>))"
proof -
  have "throttlers wa = throttlers w" using sua by (rule set_user_agent_frame)
  then obtain w1 where w1: "wait_for_ticket e wa = Some w1"
    using wait_for_ticket_returns[of wa e] ok by auto
  then obtain c ts where sh: "w1 = wa\<lparr>clock := c,
            throttlers := (throttlers wa)(e := (throttlers wa e)\<lparr>request_timestamps := ts @ [c]\<rparr>)\<rparr>"
    using wait_for_ticket_shape by blast
  have "with_identity (throttle_wrapper e func) url identity ic kw w =
      throttle_wrapper e func url (Some i) ic kw1 wa"
    using id sua by (rule with_identity_set)
  also have "\<dots> = (case func url (Some i) ic kw1 w1 of
               None \<Rightarrow> None
             | Some (Inl ex, w2) \<Rightarrow> Some (Inl ex, w2)
             | Some (Inr r, w2) \<Rightarrow>
                 Some (Inr r, w2\<lparr>throttlers := (throttlers w2)(e := update_metrics (throttlers w2 e))\<rparr>))"
    using w1 by (simp add: throttle_wrapper_def)
  finally show ?thesis using sh w1 by blast
qed

text \<open>The transport call of the body, after the hop.\<close>

lemma send_after_hop:
  assumes sua: "set_user_agent i kw w = (kw1, wa)"
    and w1: "w1 = wa\<lparr>clock := c,
            throttlers := (throttlers wa)(e := (throttlers wa e)\<lparr>request_timestamps := ts @ [c]\<rparr>)\<rparr>"
  shows "send verb url kw1 w1 =
     (snd (transport w (sent w) (request_of verb url kw1 wa)),
      w1\<lparr>clock := c + fst (transport w (sent w) (request_of verb url kw1 wa)),
         sent := sent w @ [request_of verb url kw1 wa]\<rparr>)"
proof -
  have "request_of verb url kw1 w1 = request_of verb url kw1 wa"
    by (rule request_of_heap) (simp add: w1)
  moreover have "transport w1 = transport w" "sent w1 = sent w"
    using set_user_agent_frame[OF sua] by (simp_all add: w1)
  moreover have "clock w1 = c" by (simp add: w1)
  ultimately show ?thesis
    by (simp add: send_def case_prod_beta Let_def)
qed

lemma pipeline_answer:
  assumes id: "resolve_identity identity ic w = Some i"
    and ok: "0 < max_requests (request_rate (throttlers w e))" "0 < sleep_interval (throttlers w e)"
    and sua: "set_user_agent i kw w = (kw1, wa)"
    and tr: "snd (transport w (sent w) (request_of verb url kw1 wa)) = Inr r"
  shows "\<exists>w1 w2. wait_for_ticket e wa = Some w1 \<and>
      send verb url kw1 w1 = (Inr r, w2) \<and>
      sent w2 = sent w @ [request_of verb url kw1 wa] \<and>
      with_identity (throttle_wrapper e (request_body verb again)) url identity ic kw w =
        (if status_code r = 429 then Some (Inl (TooManyRequestsError url), w2)
         else if is_redirect r then
           (case resp_headers r ''Location'' of
              None \<Rightarrow> Some (Inl (KeyError ''Location''), w2)
            | Some location \<Rightarrow>
                (case again location (Some i) ic kw1 w2 of
                   None \<Rightarrow> None
                 | Some (Inl ex, w3) \<Rightarrow> Some (Inl ex, w3)
                 | Some (Inr r', w3) \<Rightarrow>
                     Some (Inr r', w3\<lparr>throttlers := (throttlers w3)(e := update_metrics (throttlers w3 e))\<rparr>)))
         else Some (Inr r, w2\<lparr>throttlers := (throttlers w2)(e := update_metrics (throttlers w2 e))\<rparr>))"
proof -
  obtain c ts w1 where w1: "w1 = wa\<lparr>clock := c,
            throttlers := (throttlers wa)(e := (throttlers wa e)\<lparr>request_timestamps := ts @ [c]\<rparr>)\<rparr>"
    and wt: "wait_for_ticket e wa = Some w1"
    and wi: "with_identity (throttle_wrapper e (request_body verb again)) url identity ic kw w =
            (case request_body verb again url (Some i) ic kw1 w1 of
               None \<Rightarrow> None
             | Some (Inl ex, w2) \<Rightarrow> Some (Inl ex, w2)
             | Some (Inr r, w2) \<Rightarrow>
                 Some (Inr r, w2\<lparr>throttlers := (throttlers w2)(e := update_metrics (throttlers w2 e))\<rparr>))"
    using hop[OF id ok sua, of "request_body verb again" url] by blast
  define w2 where "w2 = w1\<lparr>clock := c + fst (transport w (sent w) (request_of verb url kw1 wa)),
         sent := sent w @ [request_of verb url kw1 wa]\<rparr>"
  have sd: "send verb url kw1 w1 = (Inr r, w2)"
    using send_after_hop[OF sua w1, of verb url] tr by (simp add: w2_def)
  have s2: "sent w2 = sent w @ [request_of verb url kw1 wa]" by (simp add: w2_def)
  have "with_identity (throttle_wrapper e (request_body verb again)) url identity ic kw w =
        (if status_code r = 429 then Some (Inl (TooManyRequestsError url), w2)
         else if is_redirect r then
           (case resp_headers r ''Location'' of
              None \<Rightarrow> Some (Inl (KeyError ''Location''), w2)
            | Some location \<Rightarrow>
                (case again location (Some i) ic kw1 w2 of
                   None \<Rightarrow> None
                 | Some (Inl ex, w3) \<Rightarrow> Some (Inl ex, w3)
                 | Some (Inr r', w3) \<Rightarrow>
                     Some (Inr r', w3\<lparr>throttlers := (throttlers w3)(e := update_metrics (throttlers w3 e))\<rparr>)))
         else Some (Inr r, w2\<lparr>throttlers := (throttlers w2)(e := update_metrics (throttlers w2 e))\<rparr>))"
    unfolding wi by (simp add: request_body_def sd split: option.splits)
  then show ?thesis using wt sd s2 by blast
qed

lemma send_eq:
  assumes "heap w1 = heap wa" "transport w1 = transport w" "sent w1 = sent w"
  shows "send verb url kw1 w1 =
     (snd (transport w (sent w) (request_of verb url kw1 wa)),
      w1\<lparr>clock := clock w1 + fst (transport w (sent w) (request_of verb url kw1 wa)),
         sent := sent w @ [request_of verb url kw1 wa]\<rparr>)"
proof -
  have "request_of verb url kw1 w1 = request_of verb url kw1 wa"
    using assms(1) by (rule request_of_heap)
  then show ?thesis
    using assms(2,3) by (simp add: send_def case_prod_beta Let_def)
qed


text \<open>The creation of a generator or coroutine object under the wrappers.\<close>

lemma object_created:
  assumes id: "resolve_identity identity ic w = Some i"
    and ok: "0 < max_requests (request_rate (throttlers w e))" "0 < sleep_interval (throttlers w e)"
    and sua: "set_user_agent i kw w = (kw1, wa)"
  shows "\<exists>w1. heap w1 = heap wa \<and> transport w1 = transport w \<and> sent w1 = sent w \<and>
      retry on m t w0
        (with_identity (throttle_wrapper e (\<lambda>url identity ic kw w. Some (Inr (mk url identity ic kw), w)))
           url identity ic kw) w = Some (Inr (mk url (Some i) ic kw1), w1)"
proof -
  obtain c ts w1 where w1: "w1 = wa\<lparr>clock := c,
            throttlers := (throttlers wa)(e := (throttlers wa e)\<lparr>request_timestamps := ts @ [c]\<rparr>)\<rparr>"
    and wi: "with_identity (throttle_wrapper e (\<lambda>url identity ic kw w. Some (Inr (mk url identity ic kw), w)))
        url identity ic kw w =
            (case (\<lambda>url identity ic kw w. Some (Inr (mk url identity ic kw), w)) url (Some i) ic kw1 w1 of
               None \<Rightarrow> None
             | Some (Inl ex, w2) \<Rightarrow> Some (Inl ex, w2)
             | Some (Inr r, w2) \<Rightarrow>
                 Some (Inr r, w2\<lparr>throttlers := (throttlers w2)(e := update_metrics (throttlers w2 e))\<rparr>))"
    using hop[OF id ok sua, of "\<lambda>url identity ic kw w. Some (Inr (mk url identity ic kw), w)" url] by blast
  define w2 where "w2 = w1\<lparr>throttlers := (throttlers w1)(e := update_metrics (throttlers w1 e))\<rparr>"
  have "with_identity (throttle_wrapper e (\<lambda>url identity ic kw w. Some (Inr (mk url identity ic kw), w)))
        url identity ic kw w = Some (Inr (mk url (Some i) ic kw1), w2)"
    unfolding wi w2_def by simp
  then have "retry on m t w0
        (with_identity (throttle_wrapper e (\<lambda>url identity ic kw w. Some (Inr (mk url identity ic kw), w)))
           url identity ic kw) w = Some (Inr (mk url (Some i) ic kw1), w2)"
    by (rule retry_returns)
  moreover have "heap w2 = heap wa" "transport w2 = transport w" "sent w2 = sent w"
    using set_user_agent_frame[OF sua] by (simp_all add: w2_def w1)
  ultimately show ?thesis by blast
qed

lemma request_pipeline_429:
  assumes id: "resolve_identity identity ic w = Some i"
    and ok: "0 < max_requests (request_rate (throttlers w e))" "0 < sleep_interval (throttlers w e)"
    and sua: "set_user_agent i kw w = (kw1, wa)"
    and tr: "snd (transport w (sent w) (request_of verb url kw1 wa)) = Inr r"
    and st: "status_code r = 429"
  shows "\<exists>w'. retry is_RequestError m t w0
           (with_identity (throttle_wrapper e (request_body verb again)) url identity ic kw) w
             = Some (Inl (TooManyRequestsError url), w') \<and>
         sent w' = sent w @ [request_of verb url kw1 wa]"
proof -
  obtain w2 where s2: "sent w2 = sent w @ [request_of verb url kw1 wa]"
    and wi: "with_identity (throttle_wrapper e (request_body verb again)) url identity ic kw w =
       Some (Inl (TooManyRequestsError url), w2)"
    using pipeline_answer[OF id ok sua tr, of again] st by auto
  have "retry is_RequestError m t w0
           (with_identity (throttle_wrapper e (request_body verb again)) url identity ic kw) w
             = Some (Inl (TooManyRequestsError url), w2)"
    using wi by (rule retry_raises) simp
  then show ?thesis using s2 by blast
qed

lemma request_pipeline_other:
  assumes id: "resolve_identity identity ic w = Some i"
    and ok: "0 < max_requests (request_rate (throttlers w e))" "0 < sleep_interval (throttlers w e)"
    and sua: "set_user_agent i kw w = (kw1, wa)"
    and tr: "snd (transport w (sent w) (request_of verb url kw1 wa)) = Inr r"
    and st: "status_code r \<noteq> 429" "\<not> is_redirect r"
  shows "\<exists>w'. retry is_RequestError m t w0
           (with_identity (throttle_wrapper e (request_body verb again)) url identity ic kw) w
             = Some (Inr r, w') \<and>
         sent w' = sent w @ [request_of verb url kw1 wa]"
proof -
  obtain w2 where s2: "sent w2 = sent w @ [request_of verb url kw1 wa]"
    and wi: "with_identity (throttle_wrapper e (request_body verb again)) url identity ic kw w =
       Some (Inr r, w2\<lparr>throttlers := (throttlers w2)(e := update_metrics (throttlers w2 e))\<rparr>)"
    using pipeline_answer[OF id ok sua tr, of again] st by auto
  have "retry is_RequestError m t w0
           (with_identity (throttle_wrapper e (request_body verb again)) url identity ic kw) w
             = Some (Inr r, w2\<lparr>throttlers := (throttlers w2)(e := update_metrics (throttlers w2 e))\<rparr>)"
    using wi by (rule retry_returns)
  then show ?thesis using s2 by force
qed

text \<open>
  Claim C7. When the identity is resolved and the throttler grants a ticket (its limit and
  its sleep interval are positive), a transport response whose status is neither 429 nor
  301 or 302 is what \<^verbatim>\<open>get_with_retry\<close> and \<^verbatim>\<open>post_with_retry\<close> return, whatever the
  status, after that one request.
\<close>

theorem other_status_returned:
  assumes "resolve_identity identity ic w = Some i"
    and "set_user_agent i kw w = (kw1, wa)"
    and "status_code r \<noteq> 429" and "\<not> is_redirect r"
  shows "(0 < max_requests (request_rate (throttlers w Get)) \<and>
          0 < sleep_interval (throttlers w Get) \<and>
          snd (transport w (sent w) (request_of ''GET'' url kw1 wa)) = Inr r \<longrightarrow>
            (\<exists>w'. get_with_retry (Suc depth) url identity ic kw w = Some (Inr r, w') \<and>
                  sent w' = sent w @ [request_of ''GET'' url kw1 wa])) \<and>
         (0 < max_requests (request_rate (throttlers w Post)) \<and>
          0 < sleep_interval (throttlers w Post) \<and>
          snd (transport w (sent w) (request_of ''POST'' url kw1 wa)) = Inr r \<longrightarrow>
            (\<exists>w'. post_with_retry (Suc depth) url identity ic kw w = Some (Inr r, w') \<and>
                  sent w' = sent w @ [request_of ''POST'' url kw1 wa]))"
  using request_pipeline_other[OF assms(1) _ _ assms(2) _ assms(3,4)]
  by simp

lemma module_throttlers_ready:
  "0 < max_requests (request_rate (throttlers (initial_world tr env) e))"
  "0 < sleep_interval (throttlers (initial_world tr env) e)"
  by (simp_all add: initial_world_def module_throttlers_def throttle_requests_def
      RequestRate_init_def max_requests_per_second_def Throttler_init_def)

theorem other_status_returned_witness:
  "(\<exists>w'. get_with_retry (Suc 0) ''A'' (Some ''me'') None no_kwargs
           (initial_world (always not_found_response) None) = Some (Inr not_found_response, w')) \<and>
   (\<exists>w'. post_with_retry (Suc 0) ''A'' (Some ''me'') None no_kwargs
           (initial_world (always not_found_response) None) = Some (Inr not_found_response, w'))"
proof -
  let ?w = "initial_world (always not_found_response) None"
  have id: "resolve_identity (Some ''me'') None ?w = Some ''me''"
    by (simp add: resolve_identity_def)
  have sua: "set_user_agent ''me'' no_kwargs ?w =
      (fst (set_user_agent ''me'' no_kwargs ?w), snd (set_user_agent ''me'' no_kwargs ?w))"
    by simp
  have st: "status_code not_found_response \<noteq> 429" "\<not> is_redirect not_found_response"
    by (simp_all add: not_found_response_def is_redirect_def)
  have tr: "snd (transport ?w hist req) = Inr not_found_response" for hist req
    by (simp add: initial_world_def always_def)
  show ?thesis
    using other_status_returned[OF id sua st, of "''A''" 0] module_throttlers_ready tr
    by blast
qed

section \<open>Frames\<close>

lemma runs_on_refl: "runs_on e w w"
  by (simp add: runs_on_def)

lemma runs_on_trans: "runs_on e w w1 \<Longrightarrow> runs_on e w1 w2 \<Longrightarrow> runs_on e w w2"
  by (simp add: runs_on_def)

lemma runs_on_sleep: "runs_on e w (sleep d w)"
  by (simp add: runs_on_def sleep_def)

lemma runs_on_wait: "wait_for_ticket e w = Some w' \<Longrightarrow> runs_on e w w'"
  by (drule wait_for_ticket_shape) (auto simp: runs_on_def)

lemma runs_on_send: "send verb url kw w = (ans, w') \<Longrightarrow> runs_on e w w'"
  by (auto simp: send_def runs_on_def Let_def split: prod.splits)

lemma runs_on_set_user_agent: "set_user_agent i kw w = (kw1, wa) \<Longrightarrow> runs_on e w wa"
  by (auto simp: set_user_agent_def runs_on_def Let_def split: option.splits)

lemma runs_on_metrics:
  "runs_on e w (w\<lparr>throttlers := (throttlers w)(e := update_metrics (throttlers w e))\<rparr>)"
  by (simp add: runs_on_def update_metrics_def)

lemma forwards_refl: "forwards a i w w"
  by (simp add: forwards_def)

lemma forwards_trans:
  assumes "forwards a i w w1" and "forwards a i w1 w2"
  shows "forwards a i w w2"
proof -
  obtain n1 where n1: "sent w1 = sent w @ n1"
    "\<forall>q\<in>set n1. kw_headers (req_kwargs q) = Some a \<and> req_headers q = (heap w a)(''User-Agent'' \<mapsto> i)"
    using assms(1) by (auto simp: forwards_def)
  obtain n2 where n2: "sent w2 = sent w1 @ n2"
    "\<forall>q\<in>set n2. kw_headers (req_kwargs q) = Some a \<and> req_headers q = (heap w1 a)(''User-Agent'' \<mapsto> i)"
    using assms(2) by (auto simp: forwards_def)
  have h1: "heap w1 a = heap w a \<or> heap w1 a = (heap w a)(''User-Agent'' \<mapsto> i)"
    using assms(1) by (simp add: forwards_def)
  have h2: "heap w2 a = heap w1 a \<or> heap w2 a = (heap w1 a)(''User-Agent'' \<mapsto> i)"
    using assms(2) by (simp add: forwards_def)
  have same: "(heap w1 a)(''User-Agent'' \<mapsto> i) = (heap w a)(''User-Agent'' \<mapsto> i)"
    using h1 by auto
  have "heap w2 a = heap w a \<or> heap w2 a = (heap w a)(''User-Agent'' \<mapsto> i)"
    using h1 h2 same by auto
  moreover have "sent w2 = sent w @ (n1 @ n2)" using n1(1) n2(1) by simp
  moreover have "\<forall>q\<in>set (n1 @ n2). kw_headers (req_kwargs q) = Some a \<and>
      req_headers q = (heap w a)(''User-Agent'' \<mapsto> i)"
    using n1(2) n2(2) same by auto
  ultimately show ?thesis unfolding forwards_def by blast
qed

lemma forwards_stamped:
  "forwards a i w w' \<Longrightarrow> heap w a ''User-Agent'' = Some i \<Longrightarrow> heap w' a = heap w a"
  by (auto simp: forwards_def map_upd_triv)


lemma forwards_sleep: "forwards a i w (sleep d w)"
  by (simp add: forwards_def sleep_def)

lemma forwards_wait: "wait_for_ticket e w = Some w' \<Longrightarrow> forwards a i w w'"
  by (drule wait_for_ticket_shape) (auto simp: forwards_def)

lemma forwards_metrics:
  "forwards a i w (w\<lparr>throttlers := (throttlers w)(e := update_metrics (throttlers w e))\<rparr>)"
  by (simp add: forwards_def)

lemma forwards_set_user_agent:
  assumes "set_user_agent i kw w = (kw1, wa)" and "kw_headers kw = Some a"
  shows "forwards a i w wa" and "kw1 = kw" and "heap wa a ''User-Agent'' = Some i"
  using assms by (auto simp: set_user_agent_def forwards_def Let_def)

lemma forwards_send:
  assumes "send verb url kw w = (ans, w')" and "kw_headers kw = Some a"
    and "heap w a ''User-Agent'' = Some i"
  shows "forwards a i w w'"
proof -
  have "sent w' = sent w @ [request_of verb url kw w]" and "heap w' = heap w"
    using assms(1) by (auto simp: send_def Let_def split: prod.splits)
  moreover have "req_headers (request_of verb url kw w) = (heap w a)(''User-Agent'' \<mapsto> i)"
    "kw_headers (req_kwargs (request_of verb url kw w)) = Some a"
    using assms(2,3) by (simp_all add: request_of_def map_upd_triv)
  ultimately show ?thesis by (simp add: forwards_def)
qed

section \<open>Inversion of the wrappers\<close>

lemma throttle_wrapper_cases:
  assumes "throttle_wrapper e func url idn ic kw w = Some (res, w')"
  obtains w1 w2 where "wait_for_ticket e w = Some w1" and "func url idn ic kw w1 = Some (res, w2)"
    and "w' = w2 \<or> w' = w2\<lparr>throttlers := (throttlers w2)(e := update_metrics (throttlers w2 e))\<rparr>"
  using assms
  by (auto simp: throttle_wrapper_def split: option.splits sum.splits prod.splits)

lemma with_identity_cases:
  assumes "with_identity func url identity ic kw w = Some (res, w')"
  obtains (unset) "resolve_identity identity ic w = None" and "w' = w"
      and "res = Inl (IdentityNotSetException ''User-Agent identity is not set'')"
    | (resolved) i kw1 wa where "resolve_identity identity ic w = Some i"
      and "set_user_agent i kw w = (kw1, wa)" and "func url (Some i) ic kw1 wa = Some (res, w')"
  using assms
  by (auto simp: with_identity_def split: option.splits prod.splits)

lemma request_body_cases:
  assumes "request_body verb again url idn ic kw w = Some (res, w')"
  obtains (direct) ans where "send verb url kw w = (ans, w')"
    | (redirect) ans w1 loc where "send verb url kw w = (ans, w1)"
      and "again loc idn ic kw w1 = Some (res, w')"
  using assms
  by (auto simp: request_body_def split: option.splits sum.splits prod.splits if_splits)

lemma retry_from_post:
  assumes step: "\<And>n w r w'. P w \<Longrightarrow> attempt n w = Some (r, w') \<Longrightarrow> Q r w'"
    and slp: "\<And>d r w. Q r w \<Longrightarrow> P (sleep d w)"
  shows "P w \<Longrightarrow> retry_from on m t w0 start n attempt w = Some ((r, w'), k) \<Longrightarrow> Q r w'"
proof (induction "m - n" arbitrary: n w)
  case 0
  then have mn: "m \<le> Suc n" by simp
  show ?case
    using "0.prems"(2) mn step[OF "0.prems"(1), of n]
    by (subst (asm) retry_from.simps) (auto split: option.splits sum.splits prod.splits if_splits)
next
  case (Suc j)
  show ?case
  proof (cases "attempt n w")
    case None
    then show ?thesis using Suc.prems(2) by (subst (asm) retry_from.simps) simp
  next
    case (Some p)
    obtain r1 w1 where p: "p = (r1, w1)" by (cases p)
    have q1: "Q r1 w1" using step[OF Suc.prems(1)] Some p by blast
    show ?thesis
    proof (cases "\<exists>e. r1 = Inl e \<and> on e \<and> \<not> (m \<le> Suc n \<or> t \<le> clock w1 - start)")
      case True
      then obtain e where e: "r1 = Inl e" "on e" "\<not> (m \<le> Suc n \<or> t \<le> clock w1 - start)" by blast
      define w2 where "w2 = sleep (min (w0 * 2 ^ n) (start + t - clock w1)) w1"
      have "retry_from on m t w0 start n attempt w = retry_from on m t w0 start (Suc n) attempt w2"
        using Some p e unfolding w2_def by (subst retry_from.simps) simp
      then have "retry_from on m t w0 start (Suc n) attempt w2 = Some ((r, w'), k)"
        using Suc.prems(2) by simp
      moreover have "P w2" unfolding w2_def using q1 by (rule slp)
      moreover have "j = m - Suc n" using Suc.hyps(2) by simp
      ultimately show ?thesis using Suc.hyps(1) by blast
    next
      case False
      then have "retry_from on m t w0 start n attempt w = Some ((r1, w1), Suc n)"
        using Some p by (subst retry_from.simps) (auto split: sum.splits)
      then show ?thesis using Suc.prems(2) q1 by simp
    qed
  qed
qed

lemma retry_post:
  assumes "\<And>w r w'. P w \<Longrightarrow> attempt w = Some (r, w') \<Longrightarrow> Q r w'"
    and "\<And>d r w. Q r w \<Longrightarrow> P (sleep d w)"
    and "P w" and "retry on m t w0 attempt w = Some (r, w')"
  shows "Q r w'"
proof -
  obtain k where "retry_from on m t w0 (clock w) 0 (\<lambda>_. attempt) w = Some ((r, w'), k)"
    using assms(4) by (auto simp: retry_def)
  then show ?thesis
    using retry_from_post[where P = P and Q = Q and attempt = "\<lambda>_. attempt"] assms(1,2,3)
    by blast
qed

section \<open>Confinement to one throttler\<close>

lemma confined_wrapped:
  assumes "confined e func"
  shows "confined e (with_identity (throttle_wrapper e func))"
  unfolding confined_def
proof (intro allI impI)
  fix url identity ic kw w res w'
  assume run: "with_identity (throttle_wrapper e func) url identity ic kw w = Some (res, w')"
  then show "runs_on e w w'"
  proof (cases rule: with_identity_cases)
    case unset
    then show ?thesis by (simp add: runs_on_refl)
  next
    case (resolved i kw1 wa)
    from resolved(3) obtain w1 w2 where w1: "wait_for_ticket e wa = Some w1"
      and w2: "func url (Some i) ic kw1 w1 = Some (res, w2)"
      and w': "w' = w2 \<or> w' = w2\<lparr>throttlers := (throttlers w2)(e := update_metrics (throttlers w2 e))\<rparr>"
      by (rule throttle_wrapper_cases)
    have "runs_on e w wa" using resolved(2) by (rule runs_on_set_user_agent)
    moreover have "runs_on e wa w1" using w1 by (rule runs_on_wait)
    moreover have "runs_on e w1 w2" using assms w2 unfolding confined_def by blast
    moreover have "runs_on e w2 w'" using w' runs_on_refl runs_on_metrics by metis
    ultimately show ?thesis by (blast intro: runs_on_trans)
  qed
qed

lemma confined_retry:
  assumes "confined e f"
  shows "confined e (\<lambda>url identity ic kw. retry on m t w0 (f url identity ic kw))"
  unfolding confined_def
proof (intro allI impI)
  fix url identity ic kw w res w'
  assume run: "retry on m t w0 (f url identity ic kw) w = Some (res, w')"
  show "runs_on e w w'"
  proof (rule retry_post[where P = "runs_on e w" and Q = "\<lambda>r. runs_on e w", OF _ _ _ run])
    show "runs_on e w w" by (rule runs_on_refl)
  next
    fix x r x' assume "runs_on e w x" "f url identity ic kw x = Some (r, x')"
    then show "runs_on e w x'"
      using assms unfolding confined_def by (blast intro: runs_on_trans)
  next
    fix d r x assume "runs_on e w x"
    then show "runs_on e w (sleep d x)" by (blast intro: runs_on_trans runs_on_sleep)
  qed
qed

lemma confined_request_body:
  assumes "confined e again"
  shows "confined e (request_body verb again)"
  unfolding confined_def
proof (intro allI impI)
  fix url identity ic kw w res w'
  assume "request_body verb again url identity ic kw w = Some (res, w')"
  then show "runs_on e w w'"
  proof (cases rule: request_body_cases)
    case (direct ans)
    then show ?thesis by (rule runs_on_send)
  next
    case (redirect ans w1 loc)
    have "runs_on e w w1" using redirect(1) by (rule runs_on_send)
    moreover have "runs_on e w1 w'" using assms redirect(2) unfolding confined_def by blast
    ultimately show ?thesis by (rule runs_on_trans)
  qed
qed

lemma confined_object:
  "confined e (\<lambda>url identity ic kw w. Some (Inr (mk url identity ic kw), w))"
  by (simp add: confined_def runs_on_refl)

lemma confined_get_with_retry: "confined Get (get_with_retry depth)"
proof (induction depth)
  case 0
  then show ?case by (simp add: confined_def)
next
  case (Suc depth)
  show ?case
    unfolding get_with_retry.simps
    by (intro confined_retry confined_wrapped confined_request_body Suc)
qed

lemma confined_post_with_retry: "confined Post (post_with_retry depth)"
proof (induction depth)
  case 0
  then show ?case by (simp add: confined_def)
next
  case (Suc depth)
  show ?case
    unfolding post_with_retry.simps
    by (intro confined_retry confined_wrapped confined_request_body Suc)
qed

lemma confined_stream_with_retry: "confined Stream stream_with_retry"
proof -
  have "stream_with_retry = (\<lambda>url identity ic kw. retry is_RequestError attempts retry_timeout wait_initial
       (with_identity
          (throttle_wrapper Stream
             (\<lambda>url identity ic kw w. Some (Inr (StreamGenerator url identity ic kw), w)))
          url identity ic kw))"
    by (intro ext) (simp add: stream_with_retry_def)
  then show ?thesis
    by (elim ssubst) (intro confined_retry confined_wrapped confined_object)
qed

lemma confined_get_with_retry_async: "confined GetAsync get_with_retry_async"
proof -
  have "get_with_retry_async = (\<lambda>url identity ic kw. retry is_RequestError attempts retry_timeout wait_initial
       (with_identity
          (throttle_wrapper GetAsync
             (\<lambda>url identity ic kw w. Some (Inr (GetCoroutine url identity ic kw), w)))
          url identity ic kw))"
    by (intro ext) (simp add: get_with_retry_async_def)
  then show ?thesis
    by (elim ssubst) (intro confined_retry confined_wrapped confined_object)
qed

lemma confined_post_with_retry_async: "confined PostAsync post_with_retry_async"
proof -
  have "post_with_retry_async = (\<lambda>url identity ic kw. retry is_RequestError attempts retry_timeout wait_initial
       (with_identity
          (throttle_wrapper PostAsync
             (\<lambda>url identity ic kw w. Some (Inr (PostCoroutine url identity ic kw), w)))
          url identity ic kw))"
    by (intro ext) (simp add: post_with_retry_async_def)
  then show ?thesis
    by (elim ssubst) (intro confined_retry confined_wrapped confined_object)
qed

section \<open>Forwarding of the headers dict\<close>

lemma resolve_identity_environ:
  "environ x = environ w \<Longrightarrow> resolve_identity identity ic x = resolve_identity identity ic w"
  by (simp add: resolve_identity_def split: option.splits)

lemma forwarding_wrapped:
  assumes "forwarding_body func"
  shows "forwarding (with_identity (throttle_wrapper e func))"
  unfolding forwarding_def
proof (intro allI impI)
  fix url identity ic kw w res w' a i
  assume run: "with_identity (throttle_wrapper e func) url identity ic kw w = Some (res, w')"
    and hd: "kw_headers kw = Some a" and id: "resolve_identity identity ic w = Some i"
  from run show "forwards a i w w' \<and> heap w' a ''User-Agent'' = Some i"
  proof (cases rule: with_identity_cases)
    case unset
    then show ?thesis using id by simp
  next
    case (resolved i' kw1 wa)
    then have i': "i' = i" using id by simp
    have sua: "set_user_agent i kw w = (kw1, wa)" using resolved(2) i' by simp
    have f0: "forwards a i w wa" and kw1: "kw1 = kw" and s0: "heap wa a ''User-Agent'' = Some i"
      using forwards_set_user_agent[OF sua hd] by simp_all
    from resolved(3) obtain w1 w2 where w1: "wait_for_ticket e wa = Some w1"
      and w2: "func url (Some i') ic kw1 w1 = Some (res, w2)"
      and w': "w' = w2 \<or> w' = w2\<lparr>throttlers := (throttlers w2)(e := update_metrics (throttlers w2 e))\<rparr>"
      by (rule throttle_wrapper_cases)
    have f1: "forwards a i wa w1" using w1 by (rule forwards_wait)
    have s1: "heap w1 a ''User-Agent'' = Some i"
      using forwards_stamped[OF f1 s0] s0 by simp
    have f2: "forwards a i w1 w2"
      using assms w2 hd s1 unfolding forwarding_body_def i' kw1 by blast
    have s2: "heap w2 a ''User-Agent'' = Some i"
      using forwards_stamped[OF f2 s1] s1 by simp
    have f3: "forwards a i w2 w'" using w' forwards_refl forwards_metrics by metis
    have s3: "heap w' a ''User-Agent'' = Some i"
      using forwards_stamped[OF f3 s2] s2 by simp
    have "forwards a i w w'"
      using f0 f1 f2 f3 by (blast intro: forwards_trans)
    then show ?thesis using s3 by simp
  qed
qed

lemma forwarding_retry:
  assumes "confined e f" and "forwarding f"
  shows "forwarding (\<lambda>url identity ic kw. retry on m t w0 (f url identity ic kw))"
  unfolding forwarding_def
proof (intro allI impI)
  fix url identity ic kw w res w' a i
  assume run: "retry on m t w0 (f url identity ic kw) w = Some (res, w')"
    and hd: "kw_headers kw = Some a" and id: "resolve_identity identity ic w = Some i"
  have "environ w' = environ w \<and> forwards a i w w' \<and> heap w' a ''User-Agent'' = Some i"
  proof (rule retry_post[where P = "\<lambda>x. environ x = environ w \<and> forwards a i w x"
        and Q = "\<lambda>r x. environ x = environ w \<and> forwards a i w x \<and> heap x a ''User-Agent'' = Some i",
        OF _ _ _ run])
    show "environ w = environ w \<and> forwards a i w w" by (simp add: forwards_refl)
  next
    fix x r x'
    assume p: "environ x = environ w \<and> forwards a i w x"
      and st: "f url identity ic kw x = Some (r, x')"
    have "runs_on e x x'" using assms(1) st unfolding confined_def by blast
    then have env: "environ x' = environ w" using p by (simp add: runs_on_def)
    have "resolve_identity identity ic x = Some i"
      using resolve_identity_environ[of x w identity ic] p id by simp
    then have "forwards a i x x' \<and> heap x' a ''User-Agent'' = Some i"
      using assms(2) st hd unfolding forwarding_def by blast
    then show "environ x' = environ w \<and> forwards a i w x' \<and> heap x' a ''User-Agent'' = Some i"
      using env p by (blast intro: forwards_trans)
  next
    fix d r x
    assume "environ x = environ w \<and> forwards a i w x \<and> heap x a ''User-Agent'' = Some i"
    then show "environ (sleep d x) = environ w \<and> forwards a i w (sleep d x)"
      using forwards_sleep[of a i x d] by (auto simp: sleep_def intro: forwards_trans)
  qed
  then show "forwards a i w w' \<and> heap w' a ''User-Agent'' = Some i" by simp
qed


lemma forwarding_body_object:
  "forwarding_body (\<lambda>url identity ic kw w. Some (Inr (mk url identity ic kw), w))"
  by (simp add: forwarding_body_def forwards_refl)




lemma get_with_retry_async_unfold:
  "get_with_retry_async = (\<lambda>url identity ic kw. retry is_RequestError attempts retry_timeout wait_initial
       (with_identity
          (throttle_wrapper GetAsync
             (\<lambda>url identity ic kw w. Some (Inr (GetCoroutine url identity ic kw), w)))
          url identity ic kw))"
  by (intro ext) (simp add: get_with_retry_async_def)

lemma post_with_retry_async_unfold:
  "post_with_retry_async = (\<lambda>url identity ic kw. retry is_RequestError attempts retry_timeout wait_initial
       (with_identity
          (throttle_wrapper PostAsync
             (\<lambda>url identity ic kw w. Some (Inr (PostCoroutine url identity ic kw), w)))
          url identity ic kw))"
  by (intro ext) (simp add: post_with_retry_async_def)


lemma forwarding_get_with_retry_async: "forwarding get_with_retry_async"
  by (subst get_with_retry_async_unfold)
    (intro forwarding_retry[where e = GetAsync] confined_wrapped confined_object
      forwarding_wrapped forwarding_body_object)

lemma forwarding_post_with_retry_async: "forwarding post_with_retry_async"
  by (subst post_with_retry_async_unfold)
    (intro forwarding_retry[where e = PostAsync] confined_wrapped confined_object
      forwarding_wrapped forwarding_body_object)

section \<open>Generators and coroutines\<close>

lemma object_value:
  assumes run: "retry on m t w0
      (with_identity (throttle_wrapper e (\<lambda>url identity ic kw w. Some (Inr (mk url identity ic kw), w)))
         url identity ic kw) w = Some (Inr v, w')"
  shows "\<exists>i' kw1. v = mk url (Some i') ic kw1 \<and>
      (\<forall>a i. kw_headers kw = Some a \<longrightarrow> resolve_identity identity ic w = Some i \<longrightarrow> i' = i \<and> kw1 = kw)"
proof -
  let ?f = "with_identity (throttle_wrapper e (\<lambda>url identity ic kw w. Some (Inr (mk url identity ic kw), w)))"
  let ?good = "\<lambda>r. \<forall>v. r = Inr v \<longrightarrow> (\<exists>i' kw1. v = mk url (Some i') ic kw1 \<and>
      (\<forall>a i. kw_headers kw = Some a \<longrightarrow> resolve_identity identity ic w = Some i \<longrightarrow> i' = i \<and> kw1 = kw))"
  have cf: "confined e ?f" by (intro confined_wrapped confined_object)
  note rule_here = retry_post[where P = "\<lambda>x. environ x = environ w"
        and Q = "\<lambda>r x. environ x = environ w \<and> ?good r", OF _ _ _ run]
  have "environ w' = environ w \<and> ?good (Inr v :: exn + _)"
  proof (rule rule_here)
    show "environ w = environ w" by simp
  next
    fix x r x'
    assume env: "environ x = environ w" and st: "?f url identity ic kw x = Some (r, x')"
    have "runs_on e x x'" using cf st unfolding confined_def by blast
    then have env': "environ x' = environ w" using env by (simp add: runs_on_def)
    have res: "resolve_identity identity ic x = resolve_identity identity ic w"
      using env by (rule resolve_identity_environ)
    from st have "?good r"
    proof (cases rule: with_identity_cases)
      case unset
      then show ?thesis by simp
    next
      case (resolved i' kw1 wa)
      from resolved(3) have r: "r = Inr (mk url (Some i') ic kw1)"
        by (rule throttle_wrapper_cases) auto
      have "\<forall>a i. kw_headers kw = Some a \<longrightarrow> resolve_identity identity ic w = Some i \<longrightarrow> i' = i \<and> kw1 = kw"
      proof (intro allI impI)
        fix a i assume hd: "kw_headers kw = Some a" and "resolve_identity identity ic w = Some i"
        then have "i' = i" using resolved(1) res by simp
        moreover have "kw1 = kw" using forwards_set_user_agent(2)[OF resolved(2) hd] .
        ultimately show "i' = i \<and> kw1 = kw" by simp
      qed
      then show ?thesis using r by blast
    qed
    then show "environ x' = environ w \<and> ?good r" using env' by simp
  next
    fix d and r :: "exn + _" and x :: world
    assume "environ x = environ w \<and> ?good r"
    then show "environ (sleep d x) = environ w" by (simp add: sleep_def)
  qed
  then show ?thesis by blast
qed


lemma get_with_retry_async_value:
  assumes "get_with_retry_async url identity ic kw w = Some (Inr co, w')"
  shows "\<exists>i' kw1. co = GetCoroutine url (Some i') ic kw1 \<and>
      (\<forall>a i. kw_headers kw = Some a \<longrightarrow> resolve_identity identity ic w = Some i \<longrightarrow> i' = i \<and> kw1 = kw)"
  using assms unfolding get_with_retry_async_def by (rule object_value)

lemma post_with_retry_async_value:
  assumes "post_with_retry_async url identity ic kw w = Some (Inr co, w')"
  shows "\<exists>i' kw1. co = PostCoroutine url (Some i') ic kw1 \<and>
      (\<forall>a i. kw_headers kw = Some a \<longrightarrow> resolve_identity identity ic w = Some i \<longrightarrow> i' = i \<and> kw1 = kw)"
  using assms unfolding post_with_retry_async_def by (rule object_value)

lemma stream_next_cases:
  assumes "stream_next (StreamGenerator url idn ic kw) w = Some (res, w')"
  obtains (direct) ans where "send ''GET'' url kw w = (ans, w')"
    | (redirect) ans w1 loc r where "send ''GET'' url kw w = (ans, w1)"
      and "stream_with_retry loc idn ic kw w1 = Some (r, w')"
  using assms
  by (auto split: option.splits sum.splits prod.splits if_splits)

lemma stream_next_runs_on:
  assumes "stream_next g w = Some (res, w')"
  shows "runs_on Stream w w'"
proof -
  obtain url idn ic kw where g: "g = StreamGenerator url idn ic kw" by (cases g)
  from assms[unfolded g] show ?thesis
  proof (cases rule: stream_next_cases)
    case (direct ans)
    then show ?thesis by (rule runs_on_send)
  next
    case (redirect ans w1 loc r)
    have "runs_on Stream w w1" using redirect(1) by (rule runs_on_send)
    moreover have "runs_on Stream w1 w'"
      using confined_stream_with_retry redirect(2) unfolding confined_def by blast
    ultimately show ?thesis by (rule runs_on_trans)
  qed
qed


lemma stream_items_cases:
  assumes "stream_items url identity ic kw w = Some (res, w')"
  obtains (raised) e where "stream_with_retry url identity ic kw w = Some (Inl e, w')"
    | (iterated) g w1 r where "stream_with_retry url identity ic kw w = Some (Inr g, w1)"
      and "stream_next g w1 = Some (r, w')"
  using assms
  by (auto simp: stream_items_def split: option.splits sum.splits prod.splits)

lemma confined_stream_items: "confined Stream stream_items"
  unfolding confined_def
proof (intro allI impI)
  fix url identity ic kw w res w'
  assume "stream_items url identity ic kw w = Some (res, w')"
  then show "runs_on Stream w w'"
  proof (cases rule: stream_items_cases)
    case (raised e)
    then show ?thesis using confined_stream_with_retry unfolding confined_def by blast
  next
    case (iterated g w1 r)
    have "runs_on Stream w w1"
      using confined_stream_with_retry iterated(1) unfolding confined_def by blast
    moreover have "runs_on Stream w1 w'" using iterated(2) by (rule stream_next_runs_on)
    ultimately show ?thesis by (rule runs_on_trans)
  qed
qed


lemma await_get_cases:
  assumes "await (Suc depth) (GetCoroutine url idn ic kw) w = Some (res, w')"
  obtains (direct) ans where "send ''GET'' url kw w = (ans, w')"
    | (raised) ans w1 loc e where "send ''GET'' url kw w = (ans, w1)"
      and "get_with_retry_async loc idn ic kw w1 = Some (Inl e, w')"
    | (awaited) ans w1 loc co w2 where "send ''GET'' url kw w = (ans, w1)"
      and "get_with_retry_async loc idn ic kw w1 = Some (Inr co, w2)"
      and "await depth co w2 = Some (res, w')"
  using assms
  by (auto split: option.splits sum.splits prod.splits if_splits)

lemma await_post_cases:
  assumes "await (Suc depth) (PostCoroutine url idn ic kw) w = Some (res, w')"
  obtains (direct) ans where "send ''POST'' url kw w = (ans, w')"
    | (raised) ans w1 loc e where "send ''POST'' url kw w = (ans, w1)"
      and "post_with_retry_async loc idn ic kw w1 = Some (Inl e, w')"
    | (awaited) ans w1 loc co w2 where "send ''POST'' url kw w = (ans, w1)"
      and "post_with_retry_async loc idn ic kw w1 = Some (Inr co, w2)"
      and "await depth co w2 = Some (res, w')"
  using assms
  by (auto split: option.splits sum.splits prod.splits if_splits)

lemma await_get_effect:
  "await depth (GetCoroutine url idn ic kw) w = Some (res, w') \<Longrightarrow>
   runs_on GetAsync w w' \<and>
   (\<forall>a i. idn = Some i \<longrightarrow> kw_headers kw = Some a \<longrightarrow> heap w a ''User-Agent'' = Some i \<longrightarrow>
      forwards a i w w')"
proof (induction depth arbitrary: url idn kw w)
  case 0
  then show ?case by simp
next
  case (Suc depth)
  from Suc.prems show ?case
  proof (cases rule: await_get_cases)
    case (direct ans)
    then show ?thesis using runs_on_send forwards_send by blast
  next
    case (raised ans w1 loc e)
    have r1: "runs_on GetAsync w w1" using raised(1) by (rule runs_on_send)
    have r2: "runs_on GetAsync w1 w'"
      using confined_get_with_retry_async raised(2) unfolding confined_def by blast
    have "forwards a i w w'"
      if "idn = Some i" "kw_headers kw = Some a" "heap w a ''User-Agent'' = Some i" for a i
    proof -
      have f1: "forwards a i w w1" using raised(1) that(2,3) by (rule forwards_send)
      have "resolve_identity idn ic w1 = Some i" using that(1) by (simp add: resolve_identity_def)
      then have "forwards a i w1 w'"
        using forwarding_get_with_retry_async raised(2) that(2) unfolding forwarding_def by blast
      then show ?thesis using f1 by (blast intro: forwards_trans)
    qed
    then show ?thesis using r1 r2 by (blast intro: runs_on_trans)
  next
    case (awaited ans w1 loc co w2)
    obtain i' kw1 where co: "co = GetCoroutine loc (Some i') ic kw1"
      and same: "\<forall>a i. kw_headers kw = Some a \<longrightarrow> resolve_identity idn ic w1 = Some i \<longrightarrow> i' = i \<and> kw1 = kw"
      using get_with_retry_async_value[OF awaited(2)] by blast
    have ih: "runs_on GetAsync w2 w' \<and>
       (\<forall>a i. Some i' = Some i \<longrightarrow> kw_headers kw1 = Some a \<longrightarrow> heap w2 a ''User-Agent'' = Some i \<longrightarrow>
          forwards a i w2 w')"
      using Suc.IH awaited(3) unfolding co by blast
    have r1: "runs_on GetAsync w w1" using awaited(1) by (rule runs_on_send)
    have r2: "runs_on GetAsync w1 w2"
      using confined_get_with_retry_async awaited(2) unfolding confined_def by blast
    have "forwards a i w w'"
      if "idn = Some i" "kw_headers kw = Some a" "heap w a ''User-Agent'' = Some i" for a i
    proof -
      have f1: "forwards a i w w1" using awaited(1) that(2,3) by (rule forwards_send)
      have res: "resolve_identity idn ic w1 = Some i" using that(1) by (simp add: resolve_identity_def)
      then have f2: "forwards a i w1 w2" and s2: "heap w2 a ''User-Agent'' = Some i"
        using forwarding_get_with_retry_async awaited(2) that(2) unfolding forwarding_def by blast+
      have "i' = i" "kw1 = kw" using same that(2) res by blast+
      then have "forwards a i w2 w'" using ih that(2) s2 by blast
      then show ?thesis using f1 f2 by (blast intro: forwards_trans)
    qed
    then show ?thesis using r1 r2 ih by (blast intro: runs_on_trans)
  qed
qed

lemma await_post_effect:
  "await depth (PostCoroutine url idn ic kw) w = Some (res, w') \<Longrightarrow>
   runs_on PostAsync w w' \<and>
   (\<forall>a i. idn = Some i \<longrightarrow> kw_headers kw = Some a \<longrightarrow> heap w a ''User-Agent'' = Some i \<longrightarrow>
      forwards a i w w')"
proof (induction depth arbitrary: url idn kw w)
  case 0
  then show ?case by simp
next
  case (Suc depth)
  from Suc.prems show ?case
  proof (cases rule: await_post_cases)
    case (direct ans)
    then show ?thesis using runs_on_send forwards_send by blast
  next
    case (raised ans w1 loc e)
    have r1: "runs_on PostAsync w w1" using raised(1) by (rule runs_on_send)
    have r2: "runs_on PostAsync w1 w'"
      using confined_post_with_retry_async raised(2) unfolding confined_def by blast
    have "forwards a i w w'"
      if "idn = Some i" "kw_headers kw = Some a" "heap w a ''User-Agent'' = Some i" for a i
    proof -
      have f1: "forwards a i w w1" using raised(1) that(2,3) by (rule forwards_send)
      have "resolve_identity idn ic w1 = Some i" using that(1) by (simp add: resolve_identity_def)
      then have "forwards a i w1 w'"
        using forwarding_post_with_retry_async raised(2) that(2) unfolding forwarding_def by blast
      then show ?thesis using f1 by (blast intro: forwards_trans)
    qed
    then show ?thesis using r1 r2 by (blast intro: runs_on_trans)
  next
    case (awaited ans w1 loc co w2)
    obtain i' kw1 where co: "co = PostCoroutine loc (Some i') ic kw1"
      and same: "\<forall>a i. kw_headers kw = Some a \<longrightarrow> resolve_identity idn ic w1 = Some i \<longrightarrow> i' = i \<and> kw1 = kw"
      using post_with_retry_async_value[OF awaited(2)] by blast
    have ih: "runs_on PostAsync w2 w' \<and>
       (\<forall>a i. Some i' = Some i \<longrightarrow> kw_headers kw1 = Some a \<longrightarrow> heap w2 a ''User-Agent'' = Some i \<longrightarrow>
          forwards a i w2 w')"
      using Suc.IH awaited(3) unfolding co by blast
    have r1: "runs_on PostAsync w w1" using awaited(1) by (rule runs_on_send)
    have r2: "runs_on PostAsync w1 w2"
      using confined_post_with_retry_async awaited(2) unfolding confined_def by blast
    have "forwards a i w w'"
      if "idn = Some i" "kw_headers kw = Some a" "heap w a ''User-Agent'' = Some i" for a i
    proof -
      have f1: "forwards a i w w1" using awaited(1) that(2,3) by (rule forwards_send)
      have res: "resolve_identity idn ic w1 = Some i" using that(1) by (simp add: resolve_identity_def)
      then have f2: "forwards a i w1 w2" and s2: "heap w2 a ''User-Agent'' = Some i"
        using forwarding_post_with_retry_async awaited(2) that(2) unfolding forwarding_def by blast+
      have "i' = i" "kw1 = kw" using same that(2) res by blast+
      then have "forwards a i w2 w'" using ih that(2) s2 by blast
      then show ?thesis using f1 f2 by (blast intro: forwards_trans)
    qed
    then show ?thesis using r1 r2 ih by (blast intro: runs_on_trans)
  qed
qed

lemma await_call_cases:
  assumes "await_call f depth url identity ic kw w = Some (res, w')"
  obtains (raised) e where "f url identity ic kw w = Some (Inl e, w')"
    | (awaited) co w1 where "f url identity ic kw w = Some (Inr co, w1)"
      and "await depth co w1 = Some (res, w')"
  using assms
  by (auto simp: await_call_def split: option.splits sum.splits prod.splits)

lemma confined_await_get: "confined GetAsync (await_call get_with_retry_async depth)"
  unfolding confined_def
proof (intro allI impI)
  fix url identity ic kw w res w'
  assume "await_call get_with_retry_async depth url identity ic kw w = Some (res, w')"
  then show "runs_on GetAsync w w'"
  proof (cases rule: await_call_cases)
    case (raised e)
    then show ?thesis using confined_get_with_retry_async unfolding confined_def by blast
  next
    case (awaited co w1)
    obtain i' kw1 where co: "co = GetCoroutine url (Some i') ic kw1"
      using get_with_retry_async_value[OF awaited(1)] by blast
    have "runs_on GetAsync w w1"
      using confined_get_with_retry_async awaited(1) unfolding confined_def by blast
    moreover have "runs_on GetAsync w1 w'"
      using await_get_effect awaited(2) unfolding co by blast
    ultimately show ?thesis by (rule runs_on_trans)
  qed
qed

lemma confined_await_post: "confined PostAsync (await_call post_with_retry_async depth)"
  unfolding confined_def
proof (intro allI impI)
  fix url identity ic kw w res w'
  assume "await_call post_with_retry_async depth url identity ic kw w = Some (res, w')"
  then show "runs_on PostAsync w w'"
  proof (cases rule: await_call_cases)
    case (raised e)
    then show ?thesis using confined_post_with_retry_async unfolding confined_def by blast
  next
    case (awaited co w1)
    obtain i' kw1 where co: "co = PostCoroutine url (Some i') ic kw1"
      using post_with_retry_async_value[OF awaited(1)] by blast
    have "runs_on PostAsync w w1"
      using confined_post_with_retry_async awaited(1) unfolding confined_def by blast
    moreover have "runs_on PostAsync w1 w'"
      using await_post_effect awaited(2) unfolding co by blast
    ultimately show ?thesis by (rule runs_on_trans)
  qed
qed



section \<open>The headers dict and the throttlers of a call\<close>




lemma caller_world_ready:
  "0 < max_requests (request_rate (throttlers caller_world e))"
  "0 < sleep_interval (throttlers caller_world e)"
  using module_throttlers_ready[of "always ok_response" None e]
  by (simp_all add: caller_world_def initial_world_def)

lemma ok_response_plain: "status_code ok_response \<noteq> 429" "\<not> is_redirect ok_response"
  by (simp_all add: ok_response_def is_redirect_def)

lemma caller_world_get:
  "\<exists>w'. get_with_retry (Suc 0) ''A'' (Some ''me'') None (no_kwargs\<lparr>kw_headers := Some 0\<rparr>) caller_world
      = Some (Inr ok_response, w')"
proof -
  have id: "resolve_identity (Some ''me'') None caller_world = Some ''me''"
    by (simp add: resolve_identity_def)
  obtain kw1 wa where sua: "set_user_agent ''me'' (no_kwargs\<lparr>kw_headers := Some 0\<rparr>) caller_world = (kw1, wa)"
    by (cases "set_user_agent ''me'' (no_kwargs\<lparr>kw_headers := Some 0\<rparr>) caller_world")
  have tr: "snd (transport caller_world (sent caller_world) (request_of ''GET'' ''A'' kw1 wa)) = Inr ok_response"
    by (simp add: caller_world_def initial_world_def always_def)
  show ?thesis
    using request_pipeline_other[OF id caller_world_ready[of Get] sua tr ok_response_plain,
        of attempts retry_timeout wait_initial "get_with_retry 0"]
    by auto
qed


lemma confined_others:
  assumes "confined e f" and "f url identity ic kw w = Some (res, w')" and "e' \<noteq> e"
  shows "throttlers w' e' = throttlers w e'"
proof -
  have "runs_on e w w'" using assms(1,2) unfolding confined_def by blast
  then show ?thesis using assms(3) by (simp add: runs_on_def)
qed

text \<open>
  Claim C9. Each of the five decorated entry points has a throttler of its own: a call of
  one entry point leaves the throttlers of the other four as they were; and from the state
  of the freshly imported module, \<open>max_requests_per_second\<close> tickets on each of the five
  throttlers, forty in all, are granted at one and the same clock reading, after which
  every throttler refuses a further ticket at that reading.
\<close>

theorem throttlers_are_independent:
  "(\<forall>res w' e. get_with_retry depth url identity ic kw w = Some (res, w') \<longrightarrow> e \<noteq> Get \<longrightarrow>
       throttlers w' e = throttlers w e) \<and>
   (\<forall>res w' e. post_with_retry depth url identity ic kw w = Some (res, w') \<longrightarrow> e \<noteq> Post \<longrightarrow>
       throttlers w' e = throttlers w e) \<and>
   (\<forall>res w' e. stream_items url identity ic kw w = Some (res, w') \<longrightarrow> e \<noteq> Stream \<longrightarrow>
       throttlers w' e = throttlers w e) \<and>
   (\<forall>res w' e. await_call get_with_retry_async depth url identity ic kw w = Some (res, w') \<longrightarrow>
       e \<noteq> GetAsync \<longrightarrow> throttlers w' e = throttlers w e) \<and>
   (\<forall>res w' e. await_call post_with_retry_async depth url identity ic kw w = Some (res, w') \<longrightarrow>
       e \<noteq> PostAsync \<longrightarrow> throttlers w' e = throttlers w e) \<and>
   map_option (\<lambda>w'. (clock w',
       map (\<lambda>e. request_timestamps (throttlers w' e)) [Get, GetAsync, Stream, Post, PostAsync],
       map (\<lambda>e. fst (take_ticket e w')) [Get, GetAsync, Stream, Post, PostAsync]))
     (wait_for_tickets
        (concat (replicate (nat max_requests_per_second) [Get, GetAsync, Stream, Post, PostAsync]))
        (initial_world tr env))
   = Some (0, replicate 5 (replicate 8 0), replicate 5 False)"
proof (intro conjI allI impI)
  fix res :: "exn + response" and w' e
  assume "get_with_retry depth url identity ic kw w = Some (res, w')" "e \<noteq> Get"
  with confined_get_with_retry show "throttlers w' e = throttlers w e" by (rule confined_others)
next
  fix res :: "exn + response" and w' e
  assume "post_with_retry depth url identity ic kw w = Some (res, w')" "e \<noteq> Post"
  with confined_post_with_retry show "throttlers w' e = throttlers w e" by (rule confined_others)
next
  fix res :: "exn + stream_item list" and w' e
  assume "stream_items url identity ic kw w = Some (res, w')" "e \<noteq> Stream"
  with confined_stream_items show "throttlers w' e = throttlers w e" by (rule confined_others)
next
  fix res :: "exn + response" and w' e
  assume "await_call get_with_retry_async depth url identity ic kw w = Some (res, w')" "e \<noteq> GetAsync"
  with confined_await_get show "throttlers w' e = throttlers w e" by (rule confined_others)
next
  fix res :: "exn + response" and w' e
  assume "await_call post_with_retry_async depth url identity ic kw w = Some (res, w')" "e \<noteq> PostAsync"
  with confined_await_post show "throttlers w' e = throttlers w e" by (rule confined_others)
next
  show "map_option (\<lambda>w'. (clock w',
       map (\<lambda>e. request_timestamps (throttlers w' e)) [Get, GetAsync, Stream, Post, PostAsync],
       map (\<lambda>e. fst (take_ticket e w')) [Get, GetAsync, Stream, Post, PostAsync]))
     (wait_for_tickets
        (concat (replicate (nat max_requests_per_second) [Get, GetAsync, Stream, Post, PostAsync]))
        (initial_world tr env))
   = Some (0, replicate 5 (replicate 8 0), replicate 5 False)"
    by code_simp
qed

theorem throttlers_are_independent_witness:
  "\<exists>w'. get_with_retry (Suc 0) ''A'' (Some ''me'') None (no_kwargs\<lparr>kw_headers := Some 0\<rparr>) caller_world
      = Some (Inr ok_response, w') \<and>
     throttlers w' Post = throttlers caller_world Post \<and>
     throttlers w' Stream = throttlers caller_world Stream \<and>
     throttlers w' GetAsync = throttlers caller_world GetAsync \<and>
     throttlers w' PostAsync = throttlers caller_world PostAsync"
proof -
  obtain w' where run: "get_with_retry (Suc 0) ''A'' (Some ''me'') None (no_kwargs\<lparr>kw_headers := Some 0\<rparr>) caller_world
      = Some (Inr ok_response, w')"
    using caller_world_get by blast
  have "\<forall>e. e \<noteq> Get \<longrightarrow> throttlers w' e = throttlers caller_world e"
    using throttlers_are_independent[of "Suc 0" "''A''" "Some ''me''" None
        "no_kwargs\<lparr>kw_headers := Some 0\<rparr>" caller_world "always ok_response" None] run
    by blast
  then show ?thesis using run by auto
qed

section \<open>The response 429\<close>

lemma stream_items_429:
  assumes id: "resolve_identity identity ic w = Some i"
    and ok: "0 < max_requests (request_rate (throttlers w Stream))" "0 < sleep_interval (throttlers w Stream)"
    and sua: "set_user_agent i kw w = (kw1, wa)"
    and tr: "snd (transport w (sent w) (request_of ''GET'' url kw1 wa)) = Inr r"
    and st: "status_code r = 429"
  shows "\<exists>w'. stream_items url identity ic kw w = Some (Inl (TooManyRequestsError url), w') \<and>
         sent w' = sent w @ [request_of ''GET'' url kw1 wa]"
proof -
  obtain w1 where h: "heap w1 = heap wa" "transport w1 = transport w" "sent w1 = sent w"
    and c: "stream_with_retry url identity ic kw w = Some (Inr (StreamGenerator url (Some i) ic kw1), w1)"
    using object_created[OF id ok sua, of is_RequestError attempts retry_timeout wait_initial StreamGenerator url]
    unfolding stream_with_retry_def by blast
  define w2 where "w2 = w1\<lparr>clock := clock w1 + fst (transport w (sent w) (request_of ''GET'' url kw1 wa)),
         sent := sent w @ [request_of ''GET'' url kw1 wa]\<rparr>"
  have sd: "send ''GET'' url kw1 w1 = (Inr r, w2)"
    using send_eq[OF h, of "''GET''" url kw1] tr by (simp add: w2_def)
  have "stream_next (StreamGenerator url (Some i) ic kw1) w1 = Some (Inl (TooManyRequestsError url), w2)"
    using sd st by simp
  then have "stream_items url identity ic kw w = Some (Inl (TooManyRequestsError url), w2)"
    using c by (simp add: stream_items_def)
  moreover have "sent w2 = sent w @ [request_of ''GET'' url kw1 wa]" by (simp add: w2_def)
  ultimately show ?thesis by blast
qed

lemma await_get_429:
  assumes id: "resolve_identity identity ic w = Some i"
    and ok: "0 < max_requests (request_rate (throttlers w GetAsync))" "0 < sleep_interval (throttlers w GetAsync)"
    and sua: "set_user_agent i kw w = (kw1, wa)"
    and tr: "snd (transport w (sent w) (request_of ''GET'' url kw1 wa)) = Inr r"
    and st: "status_code r = 429"
  shows "\<exists>w'. await_call get_with_retry_async (Suc depth) url identity ic kw w
           = Some (Inl (TooManyRequestsError url), w') \<and>
         sent w' = sent w @ [request_of ''GET'' url kw1 wa]"
proof -
  obtain w1 where h: "heap w1 = heap wa" "transport w1 = transport w" "sent w1 = sent w"
    and c: "get_with_retry_async url identity ic kw w = Some (Inr (GetCoroutine url (Some i) ic kw1), w1)"
    using object_created[OF id ok sua, of is_RequestError attempts retry_timeout wait_initial GetCoroutine url]
    unfolding get_with_retry_async_def by blast
  define w2 where "w2 = w1\<lparr>clock := clock w1 + fst (transport w (sent w) (request_of ''GET'' url kw1 wa)),
         sent := sent w @ [request_of ''GET'' url kw1 wa]\<rparr>"
  have sd: "send ''GET'' url kw1 w1 = (Inr r, w2)"
    using send_eq[OF h, of "''GET''" url kw1] tr by (simp add: w2_def)
  have "await (Suc depth) (GetCoroutine url (Some i) ic kw1) w1 = Some (Inl (TooManyRequestsError url), w2)"
    using sd st by simp
  then have "await_call get_with_retry_async (Suc depth) url identity ic kw w
      = Some (Inl (TooManyRequestsError url), w2)"
    using c by (simp add: await_call_def)
  moreover have "sent w2 = sent w @ [request_of ''GET'' url kw1 wa]" by (simp add: w2_def)
  ultimately show ?thesis by blast
qed

lemma await_post_429:
  assumes id: "resolve_identity identity ic w = Some i"
    and ok: "0 < max_requests (request_rate (throttlers w PostAsync))" "0 < sleep_interval (throttlers w PostAsync)"
    and sua: "set_user_agent i kw w = (kw1, wa)"
    and tr: "snd (transport w (sent w) (request_of ''POST'' url kw1 wa)) = Inr r"
    and st: "status_code r = 429"
  shows "\<exists>w'. await_call post_with_retry_async (Suc depth) url identity ic kw w
           = Some (Inl (TooManyRequestsError url), w') \<and>
         sent w' = sent w @ [request_of ''POST'' url kw1 wa]"
proof -
  obtain w1 where h: "heap w1 = heap wa" "transport w1 = transport w" "sent w1 = sent w"
    and c: "post_with_retry_async url identity ic kw w = Some (Inr (PostCoroutine url (Some i) ic kw1), w1)"
    using object_created[OF id ok sua, of is_RequestError attempts retry_timeout wait_initial PostCoroutine url]
    unfolding post_with_retry_async_def by blast
  define w2 where "w2 = w1\<lparr>clock := clock w1 + fst (transport w (sent w) (request_of ''POST'' url kw1 wa)),
         sent := sent w @ [request_of ''POST'' url kw1 wa]\<rparr>"
  have sd: "send ''POST'' url kw1 w1 = (Inr r, w2)"
    using send_eq[OF h, of "''POST''" url kw1] tr by (simp add: w2_def)
  have "await (Suc depth) (PostCoroutine url (Some i) ic kw1) w1 = Some (Inl (TooManyRequestsError url), w2)"
    using sd st by simp
  then have "await_call post_with_retry_async (Suc depth) url identity ic kw w
      = Some (Inl (TooManyRequestsError url), w2)"
    using c by (simp add: await_call_def)
  moreover have "sent w2 = sent w @ [request_of ''POST'' url kw1 wa]" by (simp add: w2_def)
  ultimately show ?thesis by blast
qed

text \<open>
  Claim C1, as amended. \<^verbatim>\<open>TooManyRequestsError\<close> is not an \<^verbatim>\<open>httpx.RequestError\<close>, the only
  class the retry layer retries: when the identity is resolved, the throttler grants a
  ticket and the transport answers 429, every entry point surfaces
  \<^verbatim>\<open>TooManyRequestsError(url)\<close> to the caller after that single request (the call itself
  for \<^verbatim>\<open>get_with_retry\<close> and \<^verbatim>\<open>post_with_retry\<close>, the iteration of the stream, the await
  of an async call).
\<close>

theorem too_many_requests_surfaced:
  assumes "resolve_identity identity ic w = Some i"
    and "set_user_agent i kw w = (kw1, wa)"
    and "status_code r = 429"
  shows "(0 < max_requests (request_rate (throttlers w Get)) \<and>
          0 < sleep_interval (throttlers w Get) \<and>
          snd (transport w (sent w) (request_of ''GET'' url kw1 wa)) = Inr r \<longrightarrow>
            (\<exists>w'. get_with_retry (Suc depth) url identity ic kw w
                     = Some (Inl (TooManyRequestsError url), w') \<and>
                  sent w' = sent w @ [request_of ''GET'' url kw1 wa])) \<and>
         (0 < max_requests (request_rate (throttlers w Post)) \<and>
          0 < sleep_interval (throttlers w Post) \<and>
          snd (transport w (sent w) (request_of ''POST'' url kw1 wa)) = Inr r \<longrightarrow>
            (\<exists>w'. post_with_retry (Suc depth) url identity ic kw w
                     = Some (Inl (TooManyRequestsError url), w') \<and>
                  sent w' = sent w @ [request_of ''POST'' url kw1 wa])) \<and>
         (0 < max_requests (request_rate (throttlers w Stream)) \<and>
          0 < sleep_interval (throttlers w Stream) \<and>
          snd (transport w (sent w) (request_of ''GET'' url kw1 wa)) = Inr r \<longrightarrow>
            (\<exists>w'. stream_items url identity ic kw w = Some (Inl (TooManyRequestsError url), w') \<and>
                  sent w' = sent w @ [request_of ''GET'' url kw1 wa])) \<and>
         (0 < max_requests (request_rate (throttlers w GetAsync)) \<and>
          0 < sleep_interval (throttlers w GetAsync) \<and>
          snd (transport w (sent w) (request_of ''GET'' url kw1 wa)) = Inr r \<longrightarrow>
            (\<exists>w'. await_call get_with_retry_async (Suc depth) url identity ic kw w
                     = Some (Inl (TooManyRequestsError url), w') \<and>
                  sent w' = sent w @ [request_of ''GET'' url kw1 wa])) \<and>
         (0 < max_requests (request_rate (throttlers w PostAsync)) \<and>
          0 < sleep_interval (throttlers w PostAsync) \<and>
          snd (transport w (sent w) (request_of ''POST'' url kw1 wa)) = Inr r \<longrightarrow>
            (\<exists>w'. await_call post_with_retry_async (Suc depth) url identity ic kw w
                     = Some (Inl (TooManyRequestsError url), w') \<and>
                  sent w' = sent w @ [request_of ''POST'' url kw1 wa]))"
proof (intro conjI impI)
  assume "0 < max_requests (request_rate (throttlers w Get)) \<and>
          0 < sleep_interval (throttlers w Get) \<and>
          snd (transport w (sent w) (request_of ''GET'' url kw1 wa)) = Inr r"
  then show "\<exists>w'. get_with_retry (Suc depth) url identity ic kw w
                     = Some (Inl (TooManyRequestsError url), w') \<and>
                  sent w' = sent w @ [request_of ''GET'' url kw1 wa]"
    using request_pipeline_429[OF assms(1) _ _ assms(2) _ assms(3), of Get "''GET''" url] by simp
next
  assume "0 < max_requests (request_rate (throttlers w Post)) \<and>
          0 < sleep_interval (throttlers w Post) \<and>
          snd (transport w (sent w) (request_of ''POST'' url kw1 wa)) = Inr r"
  then show "\<exists>w'. post_with_retry (Suc depth) url identity ic kw w
                     = Some (Inl (TooManyRequestsError url), w') \<and>
                  sent w' = sent w @ [request_of ''POST'' url kw1 wa]"
    using request_pipeline_429[OF assms(1) _ _ assms(2) _ assms(3), of Post "''POST''" url] by simp
next
  assume "0 < max_requests (request_rate (throttlers w Stream)) \<and>
          0 < sleep_interval (throttlers w Stream) \<and>
          snd (transport w (sent w) (request_of ''GET'' url kw1 wa)) = Inr r"
  then show "\<exists>w'. stream_items url identity ic kw w = Some (Inl (TooManyRequestsError url), w') \<and>
                  sent w' = sent w @ [request_of ''GET'' url kw1 wa]"
    using stream_items_429[OF assms(1) _ _ assms(2) _ assms(3)] by simp
next
  assume "0 < max_requests (request_rate (throttlers w GetAsync)) \<and>
          0 < sleep_interval (throttlers w GetAsync) \<and>
          snd (transport w (sent w) (request_of ''GET'' url kw1 wa)) = Inr r"
  then show "\<exists>w'. await_call get_with_retry_async (Suc depth) url identity ic kw w
                     = Some (Inl (TooManyRequestsError url), w') \<and>
                  sent w' = sent w @ [request_of ''GET'' url kw1 wa]"
    using await_get_429[OF assms(1) _ _ assms(2) _ assms(3)] by simp
next
  assume "0 < max_requests (request_rate (throttlers w PostAsync)) \<and>
          0 < sleep_interval (throttlers w PostAsync) \<and>
          snd (transport w (sent w) (request_of ''POST'' url kw1 wa)) = Inr r"
  then show "\<exists>w'. await_call post_with_retry_async (Suc depth) url identity ic kw w
                     = Some (Inl (TooManyRequestsError url), w') \<and>
                  sent w' = sent w @ [request_of ''POST'' url kw1 wa]"
    using await_post_429[OF assms(1) _ _ assms(2) _ assms(3)] by simp
qed

theorem too_many_requests_surfaced_witness:
  "(\<exists>w'. get_with_retry (Suc 0) ''A'' (Some ''me'') None no_kwargs (initial_world busy_then_ok None)
            = Some (Inl (TooManyRequestsError ''A''), w')) \<and>
   (\<exists>w'. post_with_retry (Suc 0) ''A'' (Some ''me'') None no_kwargs (initial_world busy_then_ok None)
            = Some (Inl (TooManyRequestsError ''A''), w')) \<and>
   (\<exists>w'. stream_items ''A'' (Some ''me'') None no_kwargs (initial_world busy_then_ok None)
            = Some (Inl (TooManyRequestsError ''A''), w')) \<and>
   (\<exists>w'. await_call get_with_retry_async (Suc 0) ''A'' (Some ''me'') None no_kwargs
            (initial_world busy_then_ok None) = Some (Inl (TooManyRequestsError ''A''), w')) \<and>
   (\<exists>w'. await_call post_with_retry_async (Suc 0) ''A'' (Some ''me'') None no_kwargs
            (initial_world busy_then_ok None) = Some (Inl (TooManyRequestsError ''A''), w'))"
proof -
  let ?w = "initial_world busy_then_ok None"
  have id: "resolve_identity (Some ''me'') None ?w = Some ''me''"
    by (simp add: resolve_identity_def)
  have sua: "set_user_agent ''me'' no_kwargs ?w =
      (fst (set_user_agent ''me'' no_kwargs ?w), snd (set_user_agent ''me'' no_kwargs ?w))"
    by simp
  have st: "status_code busy_response = 429" by (simp add: busy_response_def)
  have tr: "snd (transport ?w (sent ?w) req) = Inr busy_response" for req
    by (simp add: initial_world_def busy_then_ok_def)
  show ?thesis
    using too_many_requests_surfaced[OF id sua st, of "''A''" 0] module_throttlers_ready tr
    by blast
qed

text \<open>
  The claim as stated fails: the transport answers 429 once and 200 afterwards, and the
  call raises after the first request.
\<close>

theorem too_many_requests_retried_counterexample:
  "map_option (\<lambda>(res, w'). (map_sum id status_code res, map req_url (sent w')))
     (get_with_retry 6 ''A'' (Some ''me'') None no_kwargs (initial_world busy_then_ok None))
   = Some (Inl (TooManyRequestsError ''A''), [''A''])"
  by code_simp

section \<open>The items of a stream\<close>

text \<open>
  Claim C6. The transport redirects the first request to \<open>''B''\<close>: the one item the stream
  yields is not a response but the generator of the nested call for \<open>''B''\<close>, as
  \<^verbatim>\<open>yield stream_with_retry(...)\<close> yields the value of the call.
\<close>

theorem stream_redirect_yields_generator:
  "map_option (\<lambda>(res, w'). map_sum id (map (\<lambda>item. (is_response item, nested_url item))) res)
     (stream_items ''A'' (Some ''me'') None no_kwargs (initial_world moved_then_ok None))
   = Some (Inr [(False, Some ''B'')])"
  by code_simp

section \<open>Resolution of the identity\<close>

lemma retry_from_cong:
  assumes agree: "\<And>n x. P x \<Longrightarrow> f n x = g n x"
    and keep: "\<And>n x r x'. P x \<Longrightarrow> f n x = Some (r, x') \<Longrightarrow> P x'"
    and slp: "\<And>d x. P x \<Longrightarrow> P (sleep d x)"
  shows "P w \<Longrightarrow> retry_from on m t w0 start n f w = retry_from on m t w0 start n g w"
proof (induction "m - n" arbitrary: n w)
  case 0
  then have mn: "m \<le> Suc n" by simp
  have "f n w = g n w" using agree "0.prems" by blast
  then show ?case
    using mn
    by (subst retry_from.simps, subst (2) retry_from.simps)
      (auto split: option.splits sum.splits prod.splits)
next
  case (Suc j)
  have fg: "f n w = g n w" using agree Suc.prems by blast
  show ?case
  proof (cases "f n w")
    case None
    then show ?thesis
      using fg by (subst retry_from.simps, subst (2) retry_from.simps) simp
  next
    case (Some p)
    obtain r1 w1 where p: "p = (r1, w1)" by (cases p)
    have p1: "P w1" using keep[OF Suc.prems] Some p by blast
    show ?thesis
    proof (cases "\<exists>e. r1 = Inl e \<and> on e \<and> \<not> (m \<le> Suc n \<or> t \<le> clock w1 - start)")
      case True
      then obtain e where e: "r1 = Inl e" "on e" "\<not> (m \<le> Suc n \<or> t \<le> clock w1 - start)" by blast
      define w2 where "w2 = sleep (min (w0 * 2 ^ n) (start + t - clock w1)) w1"
      have a: "retry_from on m t w0 start n f w = retry_from on m t w0 start (Suc n) f w2"
        using Some p e unfolding w2_def by (subst retry_from.simps) simp
      have b: "retry_from on m t w0 start n g w = retry_from on m t w0 start (Suc n) g w2"
        using Some p e fg unfolding w2_def by (subst retry_from.simps) simp
      have "P w2" unfolding w2_def using p1 by (rule slp)
      moreover have "j = m - Suc n" using Suc.hyps(2) by simp
      ultimately have "retry_from on m t w0 start (Suc n) f w2 = retry_from on m t w0 start (Suc n) g w2"
        using Suc.hyps(1) by blast
      then show ?thesis using a b by simp
    next
      case False
      have a: "retry_from on m t w0 start n f w = Some ((r1, w1), Suc n)"
        using False Some p by (subst retry_from.simps) (auto split: sum.splits)
      have b: "retry_from on m t w0 start n g w = Some ((r1, w1), Suc n)"
        using False Some p fg by (subst retry_from.simps) (auto split: sum.splits)
      show ?thesis using a b by simp
    qed
  qed
qed

lemma retry_identity_resolved:
  assumes cf: "confined e func" and id: "resolve_identity identity ic w = Some i"
  shows "retry on m t w0 (with_identity (throttle_wrapper e func) url identity ic kw) w =
         retry on m t w0 (with_identity (throttle_wrapper e func) url (Some i) ic kw) w"
proof -
  have cw: "confined e (with_identity (throttle_wrapper e func))"
    using cf by (rule confined_wrapped)
  have "retry_from on m t w0 (clock w) 0
          (\<lambda>_. with_identity (throttle_wrapper e func) url identity ic kw) w =
        retry_from on m t w0 (clock w) 0
          (\<lambda>_. with_identity (throttle_wrapper e func) url (Some i) ic kw) w"
  proof (rule retry_from_cong[where P = "\<lambda>x. environ x = environ w"])
    show "environ w = environ w" by simp
  next
    fix n :: nat and x :: world
    assume env: "environ x = environ w"
    have "resolve_identity identity ic x = Some i"
      using resolve_identity_environ[OF env, of identity ic] id by simp
    moreover have "resolve_identity (Some i) ic x = Some i" by (simp add: resolve_identity_def)
    ultimately show "with_identity (throttle_wrapper e func) url identity ic kw x =
        with_identity (throttle_wrapper e func) url (Some i) ic kw x"
      by (simp add: with_identity_def)
  next
    fix n :: nat and x :: world and r x'
    assume env: "environ x = environ w"
      and st: "with_identity (throttle_wrapper e func) url identity ic kw x = Some (r, x')"
    have "runs_on e x x'" using cw st unfolding confined_def by blast
    then show "environ x' = environ w" using env by (simp add: runs_on_def)
  next
    fix d and x :: world
    assume "environ x = environ w"
    then show "environ (sleep d x) = environ w" by (simp add: sleep_def)
  qed
  then show ?thesis by (simp add: retry_def)
qed

lemma retry_identity_unset:
  assumes "resolve_identity identity ic w = None"
  shows "retry_from is_RequestError m t w0 start n
           (\<lambda>_. with_identity func url identity ic kw) w =
         Some ((Inl (IdentityNotSetException ''User-Agent identity is not set''), w), Suc n)"
  using with_identity_unset[OF assms, of func url kw]
  by (subst retry_from.simps) simp

lemma identity_unset_raises:
  assumes "resolve_identity identity ic w = None"
  shows "retry is_RequestError m t w0 (with_identity func url identity ic kw) w =
         Some (Inl (IdentityNotSetException ''User-Agent identity is not set''), w)"
  using retry_identity_unset[OF assms, of m t w0 "clock w" 0 func url kw]
  by (simp add: retry_def)

text \<open>
  Claim C4, as amended. The identity is the explicit argument when it is given; else,
  when an identity callable is given, what the callable returns (the environment
  variable is then not read, also when the callable returns \<^verbatim>\<open>None\<close>); else the
  environment variable. When that is \<^verbatim>\<open>None\<close>, every entry point raises
  \<^verbatim>\<open>IdentityNotSetException\<close> in a state equal to the one of the call (no ticket, no
  request, no wait) and the retry layer has invoked the function once; when it is \<open>i\<close>,
  the call is the call with the explicit identity \<open>i\<close>.
\<close>

theorem identity_resolution_order:
  "(resolve_identity identity ic w = None \<longrightarrow>
      get_with_retry (Suc depth) url identity ic kw w =
        Some (Inl (IdentityNotSetException ''User-Agent identity is not set''), w) \<and>
      post_with_retry (Suc depth) url identity ic kw w =
        Some (Inl (IdentityNotSetException ''User-Agent identity is not set''), w) \<and>
      stream_with_retry url identity ic kw w =
        Some (Inl (IdentityNotSetException ''User-Agent identity is not set''), w) \<and>
      get_with_retry_async url identity ic kw w =
        Some (Inl (IdentityNotSetException ''User-Agent identity is not set''), w) \<and>
      post_with_retry_async url identity ic kw w =
        Some (Inl (IdentityNotSetException ''User-Agent identity is not set''), w) \<and>
      retry_from is_RequestError attempts retry_timeout wait_initial (clock w) 0
          (\<lambda>_. with_identity func url identity ic kw) w =
        Some ((Inl (IdentityNotSetException ''User-Agent identity is not set''), w), 1)) \<and>
   (\<forall>i. resolve_identity identity ic w = Some i \<longrightarrow>
      get_with_retry depth url identity ic kw w = get_with_retry depth url (Some i) ic kw w \<and>
      post_with_retry depth url identity ic kw w = post_with_retry depth url (Some i) ic kw w \<and>
      stream_with_retry url identity ic kw w = stream_with_retry url (Some i) ic kw w \<and>
      get_with_retry_async url identity ic kw w = get_with_retry_async url (Some i) ic kw w \<and>
      post_with_retry_async url identity ic kw w = post_with_retry_async url (Some i) ic kw w) \<and>
   resolve_identity identity ic w =
     (case identity of
        Some i \<Rightarrow> Some i
      | None \<Rightarrow> (case ic of Some f \<Rightarrow> f () | None \<Rightarrow> environ w))"
proof (intro conjI impI allI)
  assume un: "resolve_identity identity ic w = None"
  show "get_with_retry (Suc depth) url identity ic kw w =
        Some (Inl (IdentityNotSetException ''User-Agent identity is not set''), w)"
    using identity_unset_raises[OF un] by simp
  show "post_with_retry (Suc depth) url identity ic kw w =
        Some (Inl (IdentityNotSetException ''User-Agent identity is not set''), w)"
    using identity_unset_raises[OF un] by simp
  show "stream_with_retry url identity ic kw w =
        Some (Inl (IdentityNotSetException ''User-Agent identity is not set''), w)"
    unfolding stream_with_retry_def by (rule identity_unset_raises[OF un])
  show "get_with_retry_async url identity ic kw w =
        Some (Inl (IdentityNotSetException ''User-Agent identity is not set''), w)"
    unfolding get_with_retry_async_def by (rule identity_unset_raises[OF un])
  show "post_with_retry_async url identity ic kw w =
        Some (Inl (IdentityNotSetException ''User-Agent identity is not set''), w)"
    unfolding post_with_retry_async_def by (rule identity_unset_raises[OF un])
  show "retry_from is_RequestError attempts retry_timeout wait_initial (clock w) 0
          (\<lambda>_. with_identity func url identity ic kw) w =
        Some ((Inl (IdentityNotSetException ''User-Agent identity is not set''), w), 1)"
    using retry_identity_unset[OF un, of attempts retry_timeout wait_initial "clock w" 0 func url kw]
    by simp
next
  fix i assume id: "resolve_identity identity ic w = Some i"
  show "get_with_retry depth url identity ic kw w = get_with_retry depth url (Some i) ic kw w"
  proof (cases depth)
    case 0
    then show ?thesis by simp
  next
    case (Suc d)
    have "confined Get (request_body ''GET'' (get_with_retry d))"
      by (intro confined_request_body confined_get_with_retry)
    then show ?thesis
      unfolding Suc get_with_retry.simps using id by (rule retry_identity_resolved)
  qed
  show "post_with_retry depth url identity ic kw w = post_with_retry depth url (Some i) ic kw w"
  proof (cases depth)
    case 0
    then show ?thesis by simp
  next
    case (Suc d)
    have "confined Post (request_body ''POST'' (post_with_retry d))"
      by (intro confined_request_body confined_post_with_retry)
    then show ?thesis
      unfolding Suc post_with_retry.simps using id by (rule retry_identity_resolved)
  qed
  show "stream_with_retry url identity ic kw w = stream_with_retry url (Some i) ic kw w"
    unfolding stream_with_retry_def using confined_object id by (rule retry_identity_resolved)
  show "get_with_retry_async url identity ic kw w = get_with_retry_async url (Some i) ic kw w"
    unfolding get_with_retry_async_def using confined_object id by (rule retry_identity_resolved)
  show "post_with_retry_async url identity ic kw w = post_with_retry_async url (Some i) ic kw w"
    unfolding post_with_retry_async_def using confined_object id by (rule retry_identity_resolved)
next
  show "resolve_identity identity ic w =
     (case identity of
        Some i \<Rightarrow> Some i
      | None \<Rightarrow> (case ic of Some f \<Rightarrow> f () | None \<Rightarrow> environ w))"
    by (simp add: resolve_identity_def)
qed

theorem identity_resolution_order_witness:
  "get_with_retry (Suc 0) ''A'' None (Some no_result) no_kwargs
       (initial_world (always ok_response) (Some ''me'')) =
     Some (Inl (IdentityNotSetException ''User-Agent identity is not set''),
       initial_world (always ok_response) (Some ''me'')) \<and>
   get_with_retry (Suc 0) ''A'' None None no_kwargs (initial_world (always ok_response) (Some ''me'')) =
     get_with_retry (Suc 0) ''A'' (Some ''me'') None no_kwargs
       (initial_world (always ok_response) (Some ''me''))"
proof -
  have un: "resolve_identity None (Some no_result) (initial_world (always ok_response) (Some ''me'')) = None"
    by (simp add: resolve_identity_def no_result_def)
  have id: "resolve_identity None None (initial_world (always ok_response) (Some ''me'')) = Some ''me''"
    by (simp add: resolve_identity_def initial_world_def)
  show ?thesis
    using identity_resolution_order[of None "Some no_result"
        "initial_world (always ok_response) (Some ''me'')" 0 "''A''" no_kwargs]
      identity_resolution_order[of None None
        "initial_world (always ok_response) (Some ''me'')" "Suc 0" "''A''" no_kwargs]
      un id
    by blast
qed

text \<open>
  The claim as stated fails: the callable returns \<^verbatim>\<open>None\<close> and the environment variable
  is set, so that the claimed order gives an identity, and the call raises.
\<close>

theorem identity_environment_fallback_counterexample:
  "claimed_identity None (Some no_result) (initial_world (always ok_response) (Some ''me'')) = Some ''me'' \<and>
   map_option (\<lambda>(res, w'). (map_sum id status_code res, map req_url (sent w')))
     (get_with_retry 6 ''A'' None (Some no_result) no_kwargs
        (initial_world (always ok_response) (Some ''me'')))
   = Some (Inl (IdentityNotSetException ''User-Agent identity is not set''), [])"
  by code_simp

section \<open>Redirects\<close>









end
